theory Spec2Isabelle
  imports Main "HOL-Library.AList"
begin

section \<open>Python values shared by the whole development\<close>

text \<open>
  The exceptions of \<^verbatim>\<open>appeal/__init__.py\<close> and the builtin ones its code can raise.
  Every \<^verbatim>\<open>raise\<close> and every failing \<^verbatim>\<open>assert\<close> of the source is a branch of the
  model that returns \<open>Inl\<close> of one of these. \<open>InvalidAddress\<close> is not a Python exception:
  it is the model's answer to a reference that points outside the store of objects,
  which Python cannot build.
\<close>

datatype error =
    AssertionError
  | AppealConfigurationError string
  | AppealUsageError string
  | KeyError
  | IndexError
  | ValueError
  | AttributeError
  | NameError
  | RecursionError
  | RuntimeError
  | StopIteration
  | InvalidAddress

text \<open>
  Argument counts are Python ints, except that a maximum may be \<^verbatim>\<open>math.inf\<close>.
  \<open>le_num\<close> is Python's \<^verbatim>\<open><=\<close> on these two kinds of number and \<open>incr\<close> is \<^verbatim>\<open>+= 1\<close>
  (\<^verbatim>\<open>math.inf + 1\<close> is \<^verbatim>\<open>math.inf\<close>).
\<close>

datatype pynum = Num int | Inf

fun le_num :: "pynum \<Rightarrow> pynum \<Rightarrow> bool" where
  "le_num (Num a) (Num b) = (a \<le> b)"
| "le_num (Num a) Inf = True"
| "le_num Inf (Num b) = False"
| "le_num Inf Inf = True"

fun incr :: "pynum \<Rightarrow> pynum" where
  "incr (Num a) = Num (a + 1)"
| "incr Inf = Inf"

definition startswith :: "string \<Rightarrow> string \<Rightarrow> bool" where
  "startswith s p = (take (length p) s = p)"

section \<open>Option names: \<^verbatim>\<open>normalize_option\<close> and \<^verbatim>\<open>denormalize_option\<close>\<close>

text \<open>
  \<^verbatim>\<open>
  def normalize_option(option):
      assert option and isinstance(option, str)
      assert len(option) != 1
      assert len(option) != 3
      assert option.startswith("-")
      if len(option) == 2:
          return option[1]
      assert option.startswith("--")
      return option
  \<close>
  A string is a list of characters; \<^verbatim>\<open>option[1]\<close> is the one-character string at index 1.
\<close>

definition normalize_option :: "string \<Rightarrow> error + string" where
  "normalize_option option =
     (if option = [] then Inl AssertionError
      else if length option = 1 then Inl AssertionError
      else if length option = 3 then Inl AssertionError
      else if \<not> startswith option ''-'' then Inl AssertionError
      else if length option = 2 then Inr [option ! 1]
      else if \<not> startswith option ''--'' then Inl AssertionError
      else Inr option)"

text \<open>
  \<^verbatim>\<open>
  def denormalize_option(option):
      assert option and isinstance(option, str)
      if len(option) == 1:
          return "-" + option
      return option
  \<close>
\<close>

definition denormalize_option :: "string \<Rightarrow> error + string" where
  "denormalize_option option =
     (if option = [] then Inl AssertionError
      else if length option = 1 then Inr (''-'' @ option)
      else Inr option)"

section \<open>Argument groups\<close>

text \<open>
  \<^verbatim>\<open>class ArgumentGroup\<close>: the fields set by \<^verbatim>\<open>__init__\<close>. The field \<^verbatim>\<open>id\<close> is called
  \<open>gid\<close> here. \<^verbatim>\<open>count\<close> is a Python int.
\<close>

record ArgumentGroup =
  minimum :: pynum
  maximum :: pynum
  optional :: bool
  gid :: string
  count :: int
  laden :: bool

text \<open>
  \<^verbatim>\<open>ArgumentGroup(minimum=0, maximum=0, *, id=None, optional=True)\<close>, with the id
  given by the caller.
\<close>

definition new_group :: "pynum \<Rightarrow> pynum \<Rightarrow> string \<Rightarrow> bool \<Rightarrow> ArgumentGroup" where
  "new_group mn mx i opt =
     \<lparr>minimum = mn, maximum = mx, optional = opt, gid = i, count = 0, laden = False\<rparr>"

text \<open>
  \<^verbatim>\<open>
  def satisfied(self):
      if self.optional and (not (self.laden or self.count)):
          return True
      return self.minimum <= self.count <= self.maximum
  \<close>
  An int is true when it is not zero.
\<close>

definition satisfied :: "ArgumentGroup \<Rightarrow> bool" where
  "satisfied g =
     (if optional g \<and> \<not> (laden g \<or> count g \<noteq> 0) then True
      else le_num (minimum g) (Num (count g)) \<and> le_num (Num (count g)) (maximum g))"

text \<open>
  Python's \<^verbatim>\<open>str()\<close> of an argument count, as the f-strings of the error messages
  print it.
\<close>

fun str_nat :: "nat \<Rightarrow> string" where
  "str_nat n = (if n < 10 then [''0123456789'' ! n]
                else str_nat (n div 10) @ [''0123456789'' ! (n mod 10)])"

definition str_int :: "int \<Rightarrow> string" where
  "str_int i = (if i < 0 then ''-'' @ str_nat (nat (- i)) else str_nat (nat i))"

fun str_num :: "pynum \<Rightarrow> string" where
  "str_num (Num i) = str_int i"
| "str_num Inf = ''inf''"

section \<open>Instructions and programs\<close>

text \<open>
  The classes \<^verbatim>\<open>CharmInstruction*\<close> as one datatype, one constructor per class, with
  the operands of its \<^verbatim>\<open>__slots__\<close>. An instruction that maps an option holds the
  option's own program, so instructions and programs are defined together.

  \<^item> A Python callable or \<^verbatim>\<open>inspect.Parameter\<close> operand is represented by its name.
  \<^item> \<^verbatim>\<open>create_converter\<close> also carries the converter class that
    \<^verbatim>\<open>Appeal.map_to_converter\<close> (converter factories, outside the core) returns for its
    parameter; the interpreter only asks a converter class whether it is a
    \<^verbatim>\<open>MultiOption\<close> and whether it has \<^verbatim>\<open>kwargs_converters\<close>.
  \<^item> A label is identified by the \<^verbatim>\<open>id\<close> that \<^verbatim>\<open>CharmInstructionLabel.__init__\<close> takes
    from the global counter (labels compare by identity); \<^verbatim>\<open>jump_to_label\<close> and
    \<^verbatim>\<open>branch_on_o_to_label\<close> hold the label they refer to.
  \<^item> \<^verbatim>\<open>set_group\<close> owns the \<^verbatim>\<open>ArgumentGroup\<close> built by its constructor.
  \<^item> \<^verbatim>\<open>CharmProgram\<close>: \<^verbatim>\<open>name\<close>, the serial \<^verbatim>\<open>id\<close>, \<^verbatim>\<open>opcodes\<close>, the table
    \<^verbatim>\<open>options\<close> (option to the option string of its parent program, or \<^verbatim>\<open>None\<close>),
    \<^verbatim>\<open>total\<close> and \<^verbatim>\<open>option\<close>.
\<close>

datatype converter_class = ConverterCls | SimpleTypeConverterCls | OptionCls | MultiOptionCls

datatype instr =
    Jump (address: nat)
  | BranchOnO (address: nat)
  | CreateConverter (parameter: string) (cls: converter_class) (key: string) (is_command: bool)
  | LoadConverter (key: string)
  | LoadO (key: string)
  | AppendToArgs (callable: string) (parameter: string) (discretionary: bool)
  | AddToKwargs (name: string)
  | MapOption (option: string) (prog: program) (callable: string) (parameter: string)
      (key: string) (group_id: string)
  | ConsumeArgument (required: bool) (is_oparg: bool)
  | FlushMultioption
  | SetGroup (group_of: ArgumentGroup) (optional_of: bool) (repeating: bool)
  | End (pid: string) (name: string)
  | NoOp
  | Comment (comment: string)
  | Label (label: nat) (name: string)
  | JumpToLabel (label: nat)
  | BranchOnOToLabel (label: nat)
and program =
    Program (p_name: string) (p_id: string) (opcodes: "instr list")
      (options: "(string \<times> string option) list") (total: ArgumentGroup)
      (p_option: "string option")

section \<open>The compiler's finalization scan\<close>

text \<open>
  The first loop of \<^verbatim>\<open>CharmCompiler.finalize\<close>, which scans the draft instruction list
  \<^verbatim>\<open>p\<close> once. Its local variables are the fields of \<open>fstate\<close>:
  \<^verbatim>\<open>
  labels = {}; jump_fixups = []; total = self.program.total
  group = None; converter = None; o = None; optional = False; i = 0
  \<close>
  \<^verbatim>\<open>group = op.group\<close> makes \<^verbatim>\<open>group\<close> an alias of the group object owned by the
  \<^verbatim>\<open>set_group\<close> instruction just scanned, and \<^verbatim>\<open>group.minimum += 1\<close> changes that
  instruction. The model keeps in \<open>f_group\<close> the index of that instruction in \<open>p\<close>:
  the loop only deletes at the current index, so an instruction already scanned never
  moves. \<^verbatim>\<open>if total:\<close> and \<^verbatim>\<open>if group:\<close> test objects without \<^verbatim>\<open>__bool__\<close>: true unless
  \<^verbatim>\<open>None\<close>.
\<close>

record fstate =
  f_p :: "instr list"
  f_i :: nat
  f_labels :: "(nat \<times> nat) list"
  f_jump_fixups :: "nat list"
  f_total :: ArgumentGroup
  f_group :: "nat option"
  f_converter :: "string option"
  f_o :: "string option"
  f_optional :: bool

definition finalize_init :: "instr list \<Rightarrow> ArgumentGroup \<Rightarrow> fstate" where
  "finalize_init p tot =
     \<lparr>f_p = p, f_i = 0, f_labels = [], f_jump_fixups = [], f_total = tot, f_group = None,
      f_converter = None, f_o = None, f_optional = False\<rparr>"

text \<open>\<^verbatim>\<open>del p[i]\<close>\<close>

definition del_at :: "nat \<Rightarrow> 'a list \<Rightarrow> 'a list" where
  "del_at i xs = take i xs @ drop (Suc i) xs"

text \<open>\<^verbatim>\<open>group.minimum += 1; group.maximum += 1\<close> on the group of a \<^verbatim>\<open>set_group\<close> instruction.\<close>

fun bump_group :: "instr \<Rightarrow> instr" where
  "bump_group (SetGroup g opt rep) =
     SetGroup (g\<lparr>minimum := incr (minimum g), maximum := incr (maximum g)\<rparr>) opt rep"
| "bump_group op = op"

text \<open>
  One iteration of the loop body, for \<^verbatim>\<open>op = p[i]\<close>:
  \<^verbatim>\<open>
  if op.op == opcode.label:
      if op in labels:
          raise AppealConfigurationError(f"label used twice: {op}")
      labels[op] = i
      del p[i]
      converter = o = None
      continue
  if op.op in (opcode.jump_to_label, opcode.branch_on_o_to_label):
      jump_fixups.append(i)
  if op.op == opcode.no_op:
      del p[i]
      continue
  if op.op == opcode.comment:
      if not want_prints:
          del p[i]
          continue
  if op.op == opcode.set_group:
      group = op.group
      optional = op.optional
      if op.repeating:
          if total:
              total.maximum = math.inf
  if op.op == opcode.consume_argument:
      if total:
          if not optional:
              total.minimum += 1
          total.maximum += 1
      if group:
          group.minimum += 1
          group.maximum += 1
  if op.op == opcode.load_converter:
      if converter == op.key:
          del p[i]
          continue
      converter = op.key
  if op.op == opcode.load_o:
      if o == op.key:
          del p[i]
          continue
      o = op.key
  if op.op == opcode.create_converter:
      o = op.key
  if op.op == opcode.consume_argument:
      o = '(string value)'
  i += 1
  \<close>
  (\<^verbatim>\<open>want_prints\<close> is the module constant 0.)
\<close>

definition next_i :: "fstate \<Rightarrow> fstate" where
  "next_i s = s\<lparr>f_i := f_i s + 1\<rparr>"

definition delete_current :: "fstate \<Rightarrow> fstate" where
  "delete_current s = s\<lparr>f_p := del_at (f_i s) (f_p s)\<rparr>"

fun scan_op :: "fstate \<Rightarrow> instr \<Rightarrow> error + fstate" where
  "scan_op s (Label l n) =
     (if map_of (f_labels s) l \<noteq> None
      then Inl (AppealConfigurationError ''label used twice'')
      else Inr (delete_current
                  (s\<lparr>f_labels := AList.update l (f_i s) (f_labels s),
                     f_converter := None, f_o := None\<rparr>)))"
| "scan_op s (JumpToLabel l) = Inr (next_i (s\<lparr>f_jump_fixups := f_jump_fixups s @ [f_i s]\<rparr>))"
| "scan_op s (BranchOnOToLabel l) =
     Inr (next_i (s\<lparr>f_jump_fixups := f_jump_fixups s @ [f_i s]\<rparr>))"
| "scan_op s NoOp = Inr (delete_current s)"
| "scan_op s (Comment c) = Inr (delete_current s)"
| "scan_op s (SetGroup g opt rep) =
     Inr (next_i (s\<lparr>f_group := Some (f_i s), f_optional := opt,
                     f_total := (if rep then (f_total s)\<lparr>maximum := Inf\<rparr> else f_total s)\<rparr>))"
| "scan_op s (ConsumeArgument req oparg) =
     (let t1 = (if \<not> f_optional s then (f_total s)\<lparr>minimum := incr (minimum (f_total s))\<rparr>
                else f_total s);
          t2 = t1\<lparr>maximum := incr (maximum t1)\<rparr>;
          p' = (case f_group s of None \<Rightarrow> f_p s
                | Some j \<Rightarrow> (f_p s)[j := bump_group (f_p s ! j)])
      in Inr (next_i (s\<lparr>f_total := t2, f_p := p', f_o := Some ''(string value)''\<rparr>)))"
| "scan_op s (LoadConverter k) =
     (if f_converter s = Some k then Inr (delete_current s)
      else Inr (next_i (s\<lparr>f_converter := Some k\<rparr>)))"
| "scan_op s (LoadO k) =
     (if f_o s = Some k then Inr (delete_current s)
      else Inr (next_i (s\<lparr>f_o := Some k\<rparr>)))"
| "scan_op s (CreateConverter prm c k cmd) = Inr (next_i (s\<lparr>f_o := Some k\<rparr>))"
| "scan_op s op = Inr (next_i s)"

text \<open>\<^verbatim>\<open>while i < len(p): op = p[i]; ...\<close>\<close>

function finalize_scan :: "fstate \<Rightarrow> error + fstate" where
  "finalize_scan s =
     (if f_i s < length (f_p s)
      then (case scan_op s (f_p s ! f_i s) of
              Inl e \<Rightarrow> Inl e
            | Inr s' \<Rightarrow> finalize_scan s')
      else Inr s)"
  by pat_completeness auto
termination
proof (relation "measure (\<lambda>s. length (f_p s) - f_i s)")
  show "wf (measure (\<lambda>s. length (f_p s) - f_i s))"
    by simp
next
  fix s s'
  assume "f_i s < length (f_p s)" and "scan_op s (f_p s ! f_i s) = Inr s'"
  then show "(s', s) \<in> measure (\<lambda>s. length (f_p s) - f_i s)"
    by (cases "f_p s ! f_i s")
      (auto simp: next_i_def delete_current_def del_at_def Let_def
        split: if_splits option.splits)
qed

definition total_bounds :: "fstate \<Rightarrow> pynum \<times> pynum" where
  "total_bounds s = (minimum (f_total s), maximum (f_total s))"

text \<open>
  The aggregate arity as a plain left-to-right pass over the instructions, for
  comparison with the scan: the pair is the \<^verbatim>\<open>optional\<close> flag of the group most recently
  opened and the whole-program group.
\<close>

fun arity_op :: "bool \<times> ArgumentGroup \<Rightarrow> instr \<Rightarrow> bool \<times> ArgumentGroup" where
  "arity_op (opt, t) (SetGroup g opt' rep) = (opt', if rep then t\<lparr>maximum := Inf\<rparr> else t)"
| "arity_op (opt, t) (ConsumeArgument req oparg) =
     (opt, t\<lparr>minimum := (if opt then minimum t else incr (minimum t)),
            maximum := incr (maximum t)\<rparr>)"
| "arity_op (opt, t) op = (opt, t)"

text \<open>
  The draft that the compiler assembles for a command \<^verbatim>\<open>def cmd(a, b='x')\<close>: a required
  group holding \<^verbatim>\<open>a\<close>, then an optional group holding \<^verbatim>\<open>b\<close>.
\<close>

definition draft_cmd :: "instr list" where
  "draft_cmd =
     [Comment ''cmd argument group 'cmd ag-1' initialization'',
      SetGroup (new_group (Num 0) (Num 0) ''cmd ag-1'' False) False False,
      CreateConverter ''cmd'' ConverterCls ''c-1'' True,
      Comment ''cmd argument group 'cmd ag-1' body'',
      LoadConverter ''c-1'',
      ConsumeArgument True False,
      AppendToArgs ''cmd'' ''a'' False,
      Comment ''cmd argument group 'cmd ag-2' initialization'',
      SetGroup (new_group (Num 0) (Num 0) ''cmd ag-2'' True) True False,
      Comment ''cmd argument group 'cmd ag-2' body'',
      LoadConverter ''c-1'',
      ConsumeArgument False False,
      AppendToArgs ''cmd'' ''b'' False,
      End ''program-1'' ''cmd'']"

definition total_cmd :: ArgumentGroup where
  "total_cmd = new_group (Num 0) (Num 0) ''ag-1'' False"

fun is_consume_argument :: "instr \<Rightarrow> bool" where
  "is_consume_argument (ConsumeArgument req oparg) = True"
| "is_consume_argument op = False"

section \<open>The compiler's bookkeeping of options mapped in an argument group\<close>
















text \<open>
  The program that \<^verbatim>\<open>compile_options\<close> compiles for a keyword-only parameter with a
  boolean default (converter class \<^verbatim>\<open>BooleanOptionConverter\<close>, an \<^verbatim>\<open>Option\<close> whose
  signature has no parameters), after finalization: it creates the option's converter and
  stores it in \<^verbatim>\<open>kwargs_converters\<close> of the converter of the parent callable. Its total is
  (0, 0): the option takes no value.
\<close>

definition bool_option_program ::
  "string \<Rightarrow> string \<Rightarrow> string \<Rightarrow> string \<Rightarrow> string \<Rightarrow> string \<Rightarrow> program" where
  "bool_option_program pname pid' opt_names prm k parent_key =
     Program pname pid'
       [SetGroup (new_group (Num 0) (Num 0) (pname @ '' ag-1'') False) False False,
        CreateConverter prm OptionCls k True,
        LoadConverter parent_key,
        AddToKwargs prm,
        End pid' pname]
       [] (new_group (Num 0) (Num 0) ''ag'' False) (Some opt_names)"



section \<open>Converters\<close>

text \<open>
  The run-time tree of \<^verbatim>\<open>Converter\<close> objects. Converters are mutable and refer to each
  other (\<^verbatim>\<open>queued\<close> points to the parent, \<^verbatim>\<open>args_queue\<close> and \<^verbatim>\<open>args_converters\<close> to
  children), so they live in a store: a list of converter records, a reference being an
  index into it. A slot of \<^verbatim>\<open>args_converters\<close> or a register holds either a command-line
  string or a reference to a converter.

  The fields are the ones the interpreter reads and writes: those set by
  \<^verbatim>\<open>Converter.reset\<close>, and \<^verbatim>\<open>multi_converters\<close> of \<^verbatim>\<open>MultiOption\<close>.
  \<^verbatim>\<open>SimpleTypeConverter.__init__\<close> does not set \<^verbatim>\<open>kwargs_converters\<close>; the field is
  \<open>None\<close> for that class.
\<close>

datatype pyvalue = Str string | Conv nat

record Converter =
  c_cls :: converter_class
  c_name :: string
  c_is_command :: bool
  queued :: "nat option"
  args_queue :: "nat list"
  args_converters :: "pyvalue list"
  kwargs_converters :: "(string \<times> pyvalue option) list option"
  multi_converters :: "(pyvalue list \<times> (string \<times> pyvalue option) list) list"

type_synonym heap = "Converter list"

text \<open>\<^verbatim>\<open>cls(op.parameter, self.appeal, is_command=op.is_command)\<close>\<close>

definition new_converter :: "converter_class \<Rightarrow> string \<Rightarrow> bool \<Rightarrow> Converter" where
  "new_converter c n cmd =
     \<lparr>c_cls = c, c_name = n, c_is_command = cmd, queued = None, args_queue = [],
      args_converters = [],
      kwargs_converters = (if c = SimpleTypeConverterCls then None else Some []),
      multi_converters = []\<rparr>"

text \<open>
  The loop of \<^verbatim>\<open>unqueue\<close> that pops the queue from the left until \<^verbatim>\<open>converter\<close> has
  been popped: the children popped, in order, and what is left of the queue.
  \<^verbatim>\<open>
  while True:
      child = self.args_queue.popleft()
      self.args_converters.append(child)
      child.queued = None
      if child == converter:
          break
  \<close>
\<close>

fun flush_until :: "nat \<Rightarrow> nat list \<Rightarrow> nat list \<times> nat list" where
  "flush_until x [] = ([], [])"
| "flush_until x (child # q) =
     (if child = x then ([child], q)
      else (case flush_until x q of (flushed, rest) \<Rightarrow> (child # flushed, rest)))"

text \<open>\<^verbatim>\<open>child.queued = None\<close> for each child popped.\<close>

fun clear_queued :: "heap \<Rightarrow> nat list \<Rightarrow> heap" where
  "clear_queued h [] = h"
| "clear_queued h (child # cs) = clear_queued (h[child := (h ! child)\<lparr>queued := None\<rparr>]) cs"

text \<open>
  \<^verbatim>\<open>
  def unqueue(self, converter=None):
      if self.queued:
          self.queued.unqueue(self)
          self.queued = None
      if not converter:
          return
      try:
          # if converter isn't in args_queue, this will throw ValueError
          self.args_queue.index(converter)
          while True: ...
      except ValueError:
          pass
  \<close>
  \<open>flush_queue\<close> is the part after \<^verbatim>\<open>if self.queued: ...\<close>; \<open>unqueue_calls\<close> is the method.
  The method calls itself on the parent before it clears \<^verbatim>\<open>queued\<close>, so on a cycle of
  \<^verbatim>\<open>queued\<close> references it recurses until Python raises \<^verbatim>\<open>RecursionError\<close>. The model
  counts the calls: a chain without a cycle has at most as many converters as the store,
  so \<open>unqueue\<close> allows one call more than that and answers \<^verbatim>\<open>RecursionError\<close> beyond.
\<close>

definition flush_queue :: "heap \<Rightarrow> nat \<Rightarrow> nat option \<Rightarrow> heap" where
  "flush_queue h self converter =
     (case converter of
        None \<Rightarrow> h
      | Some x \<Rightarrow>
          if x \<in> set (args_queue (h ! self))
          then (case flush_until x (args_queue (h ! self)) of
                  (flushed, rest) \<Rightarrow>
                    clear_queued
                      (h[self := (h ! self)
                           \<lparr>args_queue := rest,
                            args_converters := args_converters (h ! self) @ map Conv flushed\<rparr>])
                      flushed)
          else h)"

fun unqueue_calls :: "nat \<Rightarrow> heap \<Rightarrow> nat \<Rightarrow> nat option \<Rightarrow> error + heap" where
  "unqueue_calls 0 h self converter = Inl RecursionError"
| "unqueue_calls (Suc n) h self converter =
     (if length h \<le> self then Inl InvalidAddress
      else (case queued (h ! self) of
              None \<Rightarrow> Inr (flush_queue h self converter)
            | Some parent \<Rightarrow>
                (case unqueue_calls n h parent (Some self) of
                   Inl e \<Rightarrow> Inl e
                 | Inr h1 \<Rightarrow>
                     Inr (flush_queue (h1[self := (h1 ! self)\<lparr>queued := None\<rparr>])
                            self converter))))"

definition unqueue :: "heap \<Rightarrow> nat \<Rightarrow> nat option \<Rightarrow> error + heap" where
  "unqueue h self converter = unqueue_calls (Suc (length h)) h self converter"

text \<open>
  \<^verbatim>\<open>
  def append_converter(self, o):
      self.args_converters.append(o)
      if isinstance(o, str):
          self.unqueue()
      else:
          assert not o.queued
          # ask
          if self.queued:
              o.queued = self
  \<close>
  \<open>o\<close> is the content of the register: \<open>None\<close>, a string or a converter. \<^verbatim>\<open>None\<close> has no
  attribute \<^verbatim>\<open>queued\<close>.
\<close>

definition append_converter :: "heap \<Rightarrow> nat \<Rightarrow> pyvalue option \<Rightarrow> error + heap" where
  "append_converter h self o_val =
     (if length h \<le> self then Inl InvalidAddress
      else (case o_val of
              None \<Rightarrow> Inl AttributeError
            | Some (Str s) \<Rightarrow>
                unqueue (h[self := (h ! self)
                           \<lparr>args_converters := args_converters (h ! self) @ [Str s]\<rparr>]) self None
            | Some (Conv x) \<Rightarrow>
                (let h1 = h[self := (h ! self)
                              \<lparr>args_converters := args_converters (h ! self) @ [Conv x]\<rparr>]
                 in if length h1 \<le> x then Inl InvalidAddress
                    else if queued (h1 ! x) \<noteq> None then Inl AssertionError
                    else if queued (h1 ! self) \<noteq> None
                    then Inr (h1[x := (h1 ! x)\<lparr>queued := Some self\<rparr>])
                    else Inr h1)))"

text \<open>
  \<^verbatim>\<open>
  def queue_converter(self, o):
      assert not o.queued
      o.queued = self
      self.args_queue.append(o)
  \<close>
  A string, like \<^verbatim>\<open>None\<close>, has no attribute \<^verbatim>\<open>queued\<close>.
\<close>

definition queue_converter :: "heap \<Rightarrow> nat \<Rightarrow> pyvalue option \<Rightarrow> error + heap" where
  "queue_converter h self o_val =
     (if length h \<le> self then Inl InvalidAddress
      else (case o_val of
              None \<Rightarrow> Inl AttributeError
            | Some (Str s) \<Rightarrow> Inl AttributeError
            | Some (Conv x) \<Rightarrow>
                if length h \<le> x then Inl InvalidAddress
                else if queued (h ! x) \<noteq> None then Inl AssertionError
                else (let h1 = h[x := (h ! x)\<lparr>queued := Some self\<rparr>]
                      in Inr (h1[self := (h1 ! self)
                                   \<lparr>args_queue := args_queue (h1 ! self) @ [x]\<rparr>]))))"

text \<open>
  \<^verbatim>\<open>
  def flush(self):
      self.multi_converters.append((self.args_converters, self.kwargs_converters))
      self.reset()
  \<close>
  (\<^verbatim>\<open>MultiOption\<close>; \<^verbatim>\<open>reset\<close> is \<^verbatim>\<open>Converter.reset\<close>.)
\<close>

definition flush :: "Converter \<Rightarrow> Converter" where
  "flush c =
     c\<lparr>multi_converters :=
         multi_converters c @ [(args_converters c, case kwargs_converters c of None \<Rightarrow> [] | Some kw \<Rightarrow> kw)],
       queued := None, args_queue := [], args_converters := [], kwargs_converters := Some []\<rparr>"

text \<open>
  A chain of \<^verbatim>\<open>queued\<close> references: each converter of the list is queued on the next
  one, and the last one is not queued.
\<close>

fun is_chain :: "heap \<Rightarrow> nat list \<Rightarrow> bool" where
  "is_chain h [] = False"
| "is_chain h [a] = (a < length h \<and> queued (h ! a) = None)"
| "is_chain h (a # b # bs) = (a < length h \<and> queued (h ! a) = Some b \<and> is_chain h (b # bs))"

text \<open>
  A store of four converters: a command converter (0), an optional converter queued on
  it (1), and two converters (2 and 3) not yet attached to a parent.
\<close>

definition heap4 :: heap where
  "heap4 =
     [(new_converter ConverterCls ''cmd'' True)\<lparr>args_queue := [1]\<rparr>,
      (new_converter ConverterCls ''p'' False)\<lparr>queued := Some 0\<rparr>,
      new_converter ConverterCls ''x'' False,
      new_converter ConverterCls ''y'' False]"

section \<open>The interpreter\<close>

subsection \<open>Registers and state\<close>

text \<open>
  \<^verbatim>\<open>CharmProgramStackEntry\<close>: the registers saved by \<^verbatim>\<open>call\<close>. The register \<^verbatim>\<open>ip\<close> is a
  \<^verbatim>\<open>CharmProgramIterator\<close> (its program and its index \<^verbatim>\<open>ip\<close>) or \<^verbatim>\<open>None\<close>.
\<close>

record frame =
  fr_ip :: "(program \<times> nat) option"
  fr_program :: program
  fr_converter :: "nat option"
  fr_o :: "pyvalue option"
  fr_group :: "nat option"
  fr_groups :: "nat list"

text \<open>
  Everything \<^verbatim>\<open>CharmInterpreter.__call__\<close> reads and writes.
  \<^item> The registers of \<^verbatim>\<open>CharmBaseInterpreter\<close>: \<open>ip\<close>, \<open>program\<close>, \<open>call_stack\<close> (top first),
    \<open>converter\<close>, \<open>o_reg\<close> (the register \<^verbatim>\<open>o\<close>), \<open>group\<close>, \<open>groups\<close>, \<open>converters\<close>.
  \<^item> \<open>heap\<close> is the store of converters, \<open>gheap\<close> the store of the \<^verbatim>\<open>ArgumentGroup\<close> copies made
    by \<^verbatim>\<open>set_group\<close>: a group is reached through the register, through \<^verbatim>\<open>id_to_group\<close>
    and through saved frames, and is changed in place.
  \<^item> The locals of \<^verbatim>\<open>__call__\<close>: \<open>command_converter\<close>, \<open>id_to_group\<close>, \<open>force_positional\<close>, and
    \<open>program_var\<close> for the local \<^verbatim>\<open>program\<close> (unbound until an option has been looked up).
  \<^item> The \<^verbatim>\<open>Options\<close> object: \<open>opt_dicts\<close> is \<^verbatim>\<open>token_to_dict\<close>. Every options dict is
    created together with its token (\<^verbatim>\<open>reset\<close>) and dropped together with it (\<^verbatim>\<open>pop\<close>), so
    a dict is identified by its token (that is \<^verbatim>\<open>dict_id_to_token\<close>): \<open>opt_token\<close> stands for
    the pair \<^verbatim>\<open>self.options, self.token\<close>, \<open>opt_stack\<close> (top first) for \<^verbatim>\<open>self.stack\<close>, and
    \<open>opt_next\<close> is the number of the next token. An options dict maps an option to
    \<^verbatim>\<open>(program, group id)\<close>.
  \<^item> \<open>argi\<close> is the pushback iterator over the command line: the strings still to come,
    next first; \<^verbatim>\<open>argi.push(x)\<close> puts \<open>x\<close> in front.
  \<^item> Of the shared root \<^verbatim>\<open>Appeal\<close> object: \<open>root_force_positional\<close> and the three flags of
    \<^verbatim>\<open>option_parsing_semantics\<close>.
\<close>

type_synonym options_dict = "(string \<times> program \<times> string) list"

record istate =
  ip :: "(program \<times> nat) option"
  program :: program
  call_stack :: "frame list"
  converter :: "nat option"
  o_reg :: "pyvalue option"
  group :: "nat option"
  groups :: "nat list"
  converters :: "(string \<times> nat) list"
  heap :: heap
  gheap :: "ArgumentGroup list"
  command_converter :: "nat option"
  command_converter_key :: "string option"
  id_to_group :: "(string \<times> nat) list"
  program_var :: "program option"
  opt_dicts :: "(nat \<times> options_dict) list"
  opt_token :: nat
  opt_stack :: "nat list"
  opt_next :: nat
  argi :: "string list"
  force_positional :: bool
  root_force_positional :: bool
  option_space_oparg :: bool
  short_option_equals_oparg :: bool
  short_option_concatenated_oparg :: bool

text \<open>
  The state in which \<^verbatim>\<open>__call__\<close> enters its loop: \<^verbatim>\<open>CharmBaseInterpreter.__init__\<close>,
  \<^verbatim>\<open>CharmInterpreter.__init__\<close> (whose \<^verbatim>\<open>Options()\<close> calls \<^verbatim>\<open>reset\<close>, taking token 1), and
  the first lines of \<^verbatim>\<open>__call__\<close>, which copy \<^verbatim>\<open>self.appeal.root.force_positional\<close> into the
  local \<^verbatim>\<open>force_positional\<close>. The arguments after the program and the command line are
  the fields of the root \<^verbatim>\<open>Appeal\<close> object.
\<close>

definition init_state :: "program \<Rightarrow> string list \<Rightarrow> bool \<Rightarrow> bool \<Rightarrow> bool \<Rightarrow> bool \<Rightarrow> istate" where
  "init_state p args root_fp space_oparg equals_oparg concatenated_oparg =
     \<lparr>ip = Some (p, 0), program = p, call_stack = [], converter = None, o_reg = None,
      group = None, groups = [], converters = [], heap = [], gheap = [],
      command_converter = None, command_converter_key = None, id_to_group = [],
      program_var = None, opt_dicts = [(1, [])], opt_token = 1, opt_stack = [], opt_next = 2,
      argi = args, force_positional = root_fp, root_force_positional = root_fp,
      option_space_oparg = space_oparg, short_option_equals_oparg = equals_oparg,
      short_option_concatenated_oparg = concatenated_oparg\<rparr>"

text \<open>Truth of a register: \<^verbatim>\<open>None\<close> and the empty string are false, a converter is true.\<close>

fun truthy :: "pyvalue option \<Rightarrow> bool" where
  "truthy None = False"
| "truthy (Some (Str s)) = (s \<noteq> [])"
| "truthy (Some (Conv a)) = True"

text \<open>\<^verbatim>\<open>CharmProgramIterator.__bool__\<close>: \<^verbatim>\<open>0 <= self.ip < self.length\<close>; \<^verbatim>\<open>None\<close> is false.\<close>

fun ip_truthy :: "(program \<times> nat) option \<Rightarrow> bool" where
  "ip_truthy None = False"
| "ip_truthy (Some (p, i)) = (i < length (opcodes p))"

text \<open>
  \<^verbatim>\<open>
  def running(self):
      return bool(self.ip) or any(bool(cse.ip) for cse in self.call_stack)
  \<close>
\<close>

definition running :: "istate \<Rightarrow> bool" where
  "running s = (ip_truthy (ip s) \<or> list_ex (\<lambda>f. ip_truthy (fr_ip f)) (call_stack s))"

text \<open>\<^verbatim>\<open>CharmProgramStackEntry.__init__\<close> and \<^verbatim>\<open>restore\<close>.\<close>

definition save_frame :: "istate \<Rightarrow> frame" where
  "save_frame s =
     \<lparr>fr_ip = ip s, fr_program = program s, fr_converter = converter s, fr_o = o_reg s,
      fr_group = group s, fr_groups = groups s\<rparr>"

definition restore :: "frame \<Rightarrow> istate \<Rightarrow> istate" where
  "restore f s =
     s\<lparr>ip := fr_ip f, program := fr_program f, converter := fr_converter f, o_reg := fr_o f,
       group := fr_group f, groups := fr_groups f\<rparr>"

text \<open>
  \<^verbatim>\<open>
  def call(self, program):
      cpse = self.CharmProgramStackEntry()
      self.call_stack.append(cpse)
      self.program = program
      self.ip = CharmProgramIterator(program)
      self.groups = []
      self.converter = self.o = self.group = None
  \<close>
\<close>

definition call :: "program \<Rightarrow> istate \<Rightarrow> istate" where
  "call p s =
     s\<lparr>call_stack := save_frame s # call_stack s, program := p, ip := Some (p, 0),
       groups := [], converter := None, o_reg := None, group := None\<rparr>"

text \<open>\<^verbatim>\<open>abort\<close>: \<^verbatim>\<open>self.ip = None; self.call_stack.clear()\<close>.\<close>

definition abort :: "istate \<Rightarrow> istate" where
  "abort s = s\<lparr>ip := None, call_stack := []\<rparr>"

text \<open>
  \<^verbatim>\<open>
  def unwind(self):
      while self.call_stack:
          self.finish()
      self.abort()
  \<close>
  where \<^verbatim>\<open>finish\<close> pops the top frame and restores it.
\<close>

fun unwind_frames :: "frame list \<Rightarrow> istate \<Rightarrow> istate" where
  "unwind_frames [] s = s"
| "unwind_frames (f # fs) s = unwind_frames fs (restore f (s\<lparr>call_stack := fs\<rparr>))"

definition unwind :: "istate \<Rightarrow> istate" where
  "unwind s = abort (unwind_frames (call_stack s) s)"

text \<open>
  \<^verbatim>\<open>
  def __next__(self):
      while True:
          if not (self.ip or self.call_stack):
              raise StopIteration
          try:
              ip = self.ip.ip
              op = self.ip.__next__()
              return ip, op
          except StopIteration as e:
              self.finish()
              continue
  \<close>
  The result is the instruction fetched, or \<open>None\<close> for \<^verbatim>\<open>StopIteration\<close>. When \<^verbatim>\<open>self.ip\<close>
  is \<^verbatim>\<open>None\<close> and the call stack is not empty, \<^verbatim>\<open>self.ip.ip\<close> raises \<^verbatim>\<open>AttributeError\<close>. The
  first argument of \<open>fetch\<close> is the call stack of the state.
\<close>

fun fetch :: "frame list \<Rightarrow> istate \<Rightarrow> error + istate \<times> instr option" where
  "fetch [] s =
     (case ip s of
        None \<Rightarrow> Inr (s, None)
      | Some (p, i) \<Rightarrow>
          if i < length (opcodes p) then Inr (s\<lparr>ip := Some (p, Suc i)\<rparr>, Some (opcodes p ! i))
          else Inr (s, None))"
| "fetch (f # fs) s =
     (case ip s of
        None \<Rightarrow> Inl AttributeError
      | Some (p, i) \<Rightarrow>
          if i < length (opcodes p) then Inr (s\<lparr>ip := Some (p, Suc i)\<rparr>, Some (opcodes p ! i))
          else fetch fs (restore f (s\<lparr>call_stack := fs\<rparr>)))"

definition next_op :: "istate \<Rightarrow> error + istate \<times> instr option" where
  "next_op s = fetch (call_stack s) s"

subsection \<open>The stack of options dicts\<close>

text \<open>
  The dict behind a token. Every token in use has its dict in \<open>opt_dicts\<close>.
\<close>

definition dict_of :: "istate \<Rightarrow> nat \<Rightarrow> options_dict" where
  "dict_of s t = (case map_of (opt_dicts s) t of None \<Rightarrow> [] | Some d \<Rightarrow> d)"

text \<open>
  Python's \<^verbatim>\<open>==\<close> on two dicts: the same keys with equal values. A value is a tuple of a
  \<^verbatim>\<open>CharmProgram\<close> and a group id; programs compare by identity, and every program carries
  its own serial \<^verbatim>\<open>id\<close>, so two program values are equal exactly when they are the same
  program.
\<close>

definition dict_eq :: "options_dict \<Rightarrow> options_dict \<Rightarrow> bool" where
  "dict_eq d1 d2 =
     (list_all (\<lambda>(k, v). map_of d2 k = Some v) d1 \<and> list_all (\<lambda>(k, v). map_of d1 k = Some v) d2)"

text \<open>
  \<^verbatim>\<open>
  def reset(self):
      options = {}
      token = self.next_token()
      self.options = self.token_to_dict[token] = options
      self.token = self.dict_id_to_token[id(options)] = token
      return token

  def push(self):
      self.stack.append((self.options, self.token))
      token = self.reset()
  \<close>
\<close>

definition options_reset :: "istate \<Rightarrow> istate" where
  "options_reset s =
     s\<lparr>opt_dicts := AList.update (opt_next s) [] (opt_dicts s), opt_token := opt_next s,
       opt_next := Suc (opt_next s)\<rparr>"

definition options_push :: "istate \<Rightarrow> istate" where
  "options_push s = options_reset (s\<lparr>opt_stack := opt_token s # opt_stack s\<rparr>)"

text \<open>
  \<^verbatim>\<open>
  def pop(self):
      options_id = id(self.options)
      token = self.dict_id_to_token[options_id]
      del self.dict_id_to_token[options_id]
      del self.token_to_dict[token]
      options, token = self.stack.pop()
      self.options = options
      self.token = token
  \<close>
\<close>

definition options_pop :: "istate \<Rightarrow> error + istate" where
  "options_pop s =
     (if map_of (opt_dicts s) (opt_token s) = None then Inl KeyError
      else (case opt_stack s of
              [] \<Rightarrow> Inl IndexError
            | t # ts \<Rightarrow>
                Inr (s\<lparr>opt_dicts := AList.delete (opt_token s) (opt_dicts s), opt_token := t,
                       opt_stack := ts\<rparr>)))"

text \<open>
  \<^verbatim>\<open>
  def pop_until_token(self, token):
      if self.token == token:
          return
      options_to_stop_at = self.token_to_dict.get(token)
      if not options_to_stop_at:
          raise ValueError(...)
      count = 0
      while self.stack and (self.options != options_to_stop_at):
          count += 1
          self.pop()
      if self.options != options_to_stop_at:
          raise ValueError(...)
  \<close>
  \<open>pop_while\<close> is the \<^verbatim>\<open>while\<close> loop; its first argument is the stack of the state. An
  empty dict is false.
\<close>

fun pop_while :: "nat list \<Rightarrow> options_dict \<Rightarrow> istate \<Rightarrow> error + istate" where
  "pop_while [] d s = Inr s"
| "pop_while (t # ts) d s =
     (if \<not> dict_eq (dict_of s (opt_token s)) d
      then (case options_pop s of Inl e \<Rightarrow> Inl e | Inr s' \<Rightarrow> pop_while ts d s')
      else Inr s)"

definition pop_until_token :: "nat \<Rightarrow> istate \<Rightarrow> error + istate" where
  "pop_until_token token s =
     (if opt_token s = token then Inr s
      else (case map_of (opt_dicts s) token of
              None \<Rightarrow> Inl ValueError
            | Some d \<Rightarrow>
                if d = [] then Inl ValueError
                else (case pop_while (opt_stack s) d s of
                        Inl e \<Rightarrow> Inl e
                      | Inr s' \<Rightarrow>
                          if \<not> dict_eq (dict_of s' (opt_token s')) d then Inl ValueError
                          else Inr s')))"

text \<open>
  \<^verbatim>\<open>
  def unmap_all_child_options(self):
      count = len(self.stack)
      for _ in range(count):
          self.pop()
  \<close>
\<close>

fun pop_times :: "nat \<Rightarrow> istate \<Rightarrow> error + istate" where
  "pop_times 0 s = Inr s"
| "pop_times (Suc n) s = (case options_pop s of Inl e \<Rightarrow> Inl e | Inr s' \<Rightarrow> pop_times n s')"

definition unmap_all_child_options :: "istate \<Rightarrow> error + istate" where
  "unmap_all_child_options s = pop_times (length (opt_stack s)) s"

text \<open>
  \<^verbatim>\<open>
  def __getitem__(self, option):
      depth = 0
      options = self.options
      token = self.token
      i = reversed(self.stack)
      while True:
          t = options.get(option, None)
          if t is not None:
              break
          try:
              options, token = next(i)
          except StopIteration:
              parent_options = self.interpreter.program.options.get(option)
              if parent_options:
                  parent_options = parent_options.replace("|", "or")
                  message = f"{denormalize_option(option)} can't be used here, it must be used immediately after {parent_options}"
              else:
                  message = f"unknown option {denormalize_option(option)}"
              raise AppealUsageError(message) from None
      program, group_id = t
      total = program.total
      return program, group_id, total.minimum, total.maximum, token
  \<close>
  \<open>find_option\<close> is the \<^verbatim>\<open>while\<close> loop over the current dict and then the stack from its
  top; it returns the entry found and the token of the dict that holds it.
\<close>

fun find_option :: "istate \<Rightarrow> string \<Rightarrow> nat list \<Rightarrow> ((program \<times> string) \<times> nat) option" where
  "find_option s opt [] = None"
| "find_option s opt (t # ts) =
     (case map_of (dict_of s t) opt of
        Some e \<Rightarrow> Some (e, t)
      | None \<Rightarrow> find_option s opt ts)"

definition replace_bar :: "string \<Rightarrow> string" where
  "replace_bar s = concat (map (\<lambda>c. if c = CHR ''|'' then ''or'' else [c]) s)"

definition unknown_option_error :: "istate \<Rightarrow> string \<Rightarrow> error" where
  "unknown_option_error s opt =
     (case denormalize_option opt of
        Inl e \<Rightarrow> e
      | Inr d \<Rightarrow>
          (case map_of (options (program s)) opt of
             Some (Some parent_options) \<Rightarrow>
               if parent_options \<noteq> []
               then AppealUsageError
                      (d @ '' can't be used here, it must be used immediately after ''
                         @ replace_bar parent_options)
               else AppealUsageError (''unknown option '' @ d)
           | _ \<Rightarrow> AppealUsageError (''unknown option '' @ d)))"

definition getitem :: "istate \<Rightarrow> string \<Rightarrow> error + (program \<times> string \<times> pynum \<times> pynum \<times> nat)" where
  "getitem s opt =
     (case find_option s opt (opt_token s # opt_stack s) of
        None \<Rightarrow> Inl (unknown_option_error s opt)
      | Some ((p, g), token) \<Rightarrow> Inr (p, g, minimum (total p), maximum (total p), token))"

text \<open>\<^verbatim>\<open>__setitem__\<close>: \<^verbatim>\<open>self.options[option] = value\<close>.\<close>

definition setitem :: "string \<Rightarrow> program \<times> string \<Rightarrow> istate \<Rightarrow> istate" where
  "setitem opt v s =
     s\<lparr>opt_dicts := AList.update (opt_token s)
                       (AList.update opt v (dict_of s (opt_token s))) (opt_dicts s)\<rparr>"

subsection \<open>Loop part one: executing instructions\<close>

text \<open>
  The body of \<^verbatim>\<open>for ip, op in self:\<close>, one branch per opcode, in the order of the source.
  The boolean of the result is true when the body leaves the loop with \<^verbatim>\<open>break\<close>
  (\<^verbatim>\<open>consume_argument\<close>). The helper functions are the branches that do more than set a
  register.
\<close>

text \<open>
  \<^verbatim>\<open>
  if op.op == opcode.create_converter:
      cls = self.appeal.map_to_converter(op.parameter)
      converter = cls(op.parameter, self.appeal, is_command=op.is_command)
      self.converters[op.key] = self.o = converter
      if op.is_command and (not command_converter):
          command_converter = converter
          self.command_converter_key = op.key
      continue
  \<close>
\<close>

definition exec_create_converter ::
  "string \<Rightarrow> converter_class \<Rightarrow> string \<Rightarrow> bool \<Rightarrow> istate \<Rightarrow> istate" where
  "exec_create_converter prm c k cmd s =
     (let a = length (heap s);
          s1 = s\<lparr>heap := heap s @ [new_converter c prm cmd],
                 converters := AList.update k a (converters s), o_reg := Some (Conv a)\<rparr>
      in if cmd \<and> command_converter s = None
         then s1\<lparr>command_converter := Some a, command_converter_key := Some k\<rparr>
         else s1)"

text \<open>
  \<^verbatim>\<open>
  if op.op == opcode.append_to_args:
      o = self.o
      converter = self.converter
      # either queue or append o as indicated
      (converter.queue_converter if op.discretionary else converter.append_converter)(o)
      continue
  \<close>
\<close>

definition exec_append_to_args :: "bool \<Rightarrow> istate \<Rightarrow> error + istate" where
  "exec_append_to_args disc s =
     (case converter s of
        None \<Rightarrow> Inl AttributeError
      | Some c \<Rightarrow>
          (case (if disc then queue_converter (heap s) c (o_reg s)
                 else append_converter (heap s) c (o_reg s)) of
             Inl e \<Rightarrow> Inl e
           | Inr h \<Rightarrow> Inr (s\<lparr>heap := h\<rparr>)))"

text \<open>
  \<^verbatim>\<open>
  if op.op == opcode.add_to_kwargs:
      name = op.name
      converter = self.converter
      o = self.o
      existing = converter.kwargs_converters.get(name)
      if existing:
          if not ((existing == o) and isinstance(existing, MultiOption)):
              raise AppealUsageError(f"{program.name} specified more than once.")
          # we're setting the kwarg to the value it's already set to,
          # and it's a multioption.  it's fine, we just ignore it.
          continue
      converter.unqueue()
      converter.kwargs_converters[name] = o
      continue
  \<close>
  \<^verbatim>\<open>program\<close> is the local of \<^verbatim>\<open>__call__\<close>, unbound (\<^verbatim>\<open>NameError\<close>) before the first option
  lookup.
\<close>

definition is_multioption :: "heap \<Rightarrow> pyvalue option \<Rightarrow> bool" where
  "is_multioption h v =
     (case v of Some (Conv a) \<Rightarrow> a < length h \<and> c_cls (h ! a) = MultiOptionCls | _ \<Rightarrow> False)"

definition exec_add_to_kwargs :: "string \<Rightarrow> istate \<Rightarrow> error + istate" where
  "exec_add_to_kwargs n s =
     (case converter s of
        None \<Rightarrow> Inl AttributeError
      | Some c \<Rightarrow>
          if length (heap s) \<le> c then Inl InvalidAddress
          else (case kwargs_converters (heap s ! c) of
                  None \<Rightarrow> Inl AttributeError
                | Some kw \<Rightarrow>
                    (let existing = (case map_of kw n of None \<Rightarrow> None | Some v \<Rightarrow> v)
                     in if truthy existing
                        then (if \<not> (existing = o_reg s \<and> is_multioption (heap s) existing)
                              then (case program_var s of
                                      None \<Rightarrow> Inl NameError
                                    | Some p \<Rightarrow>
                                        Inl (AppealUsageError
                                               (p_name p @ '' specified more than once.'')))
                              else Inr s)
                        else (case unqueue (heap s) c None of
                                Inl e \<Rightarrow> Inl e
                              | Inr h \<Rightarrow>
                                  (case kwargs_converters (h ! c) of
                                     None \<Rightarrow> Inl AttributeError
                                   | Some kw' \<Rightarrow>
                                       Inr (s\<lparr>heap := h[c := (h ! c)
                                                \<lparr>kwargs_converters :=
                                                   Some (AList.update n (o_reg s) kw')\<rparr>]\<rparr>))))))"

text \<open>
  \<^verbatim>\<open>
  if op.op == opcode.set_group:
      self.group = group = op.group.copy()
      self.groups.append(group)
      id_to_group[group.id] = group
      continue
  \<close>
\<close>

definition exec_set_group :: "ArgumentGroup \<Rightarrow> istate \<Rightarrow> istate" where
  "exec_set_group g s =
     (let a = length (gheap s)
      in s\<lparr>gheap := gheap s @ [g], group := Some a, groups := groups s @ [a],
           id_to_group := AList.update (gid g) a (id_to_group s)\<rparr>)"

text \<open>
  \<^verbatim>\<open>
  if op.op == opcode.flush_multioption:
      assert isinstance(self.o, MultiOption), ...
      self.o.flush()
      continue
  \<close>
\<close>

definition exec_flush_multioption :: "istate \<Rightarrow> error + istate" where
  "exec_flush_multioption s =
     (if \<not> is_multioption (heap s) (o_reg s) then Inl AssertionError
      else (case o_reg s of
              Some (Conv a) \<Rightarrow> Inr (s\<lparr>heap := (heap s)[a := flush (heap s ! a)]\<rparr>)
            | _ \<Rightarrow> Inl AssertionError))"

text \<open>
  \<^verbatim>\<open>self.ip.jump(address)\<close> sets the index of the iterator.
\<close>

definition jump :: "nat \<Rightarrow> istate \<Rightarrow> istate" where
  "jump a s = (case ip s of None \<Rightarrow> s | Some (p, i) \<Rightarrow> s\<lparr>ip := Some (p, a)\<rparr>)"

text \<open>
  \<^verbatim>\<open>
  if op.op == opcode.load_converter:
      converter = self.converters.get(op.key, None)
      self.converter = converter
      continue
  if op.op == opcode.load_o:
      o = self.converters.get(op.key, None)
      self.o = o
      continue
  if op.op == opcode.map_option:
      self.options[op.option] = (op.program, op.group)
      continue
  ...
  if op.op == opcode.consume_argument:
      if not argi:
          self.abort()
      # proceed to second part of interpreter loop
      break
  ...
  if op.op == opcode.jump:
      self.ip.jump(op.address)
      continue
  if op.op == opcode.branch_on_o:
      if self.o:
          self.ip.jump(op.address)
      continue
  if op.op == opcode.comment:
      continue
  if op.op == opcode.end:
      continue
  raise AppealConfigurationError(f"unhandled opcode | op {op}")
  \<close>
\<close>

fun exec_op :: "istate \<Rightarrow> instr \<Rightarrow> error + istate \<times> bool" where
  "exec_op s (CreateConverter prm c k cmd) = Inr (exec_create_converter prm c k cmd s, False)"
| "exec_op s (LoadConverter k) = Inr (s\<lparr>converter := map_of (converters s) k\<rparr>, False)"
| "exec_op s (LoadO k) = Inr (s\<lparr>o_reg := map_option Conv (map_of (converters s) k)\<rparr>, False)"
| "exec_op s (MapOption opt p cl prm k g) = Inr (setitem opt (p, g) s, False)"
| "exec_op s (AppendToArgs cl prm disc) =
     (case exec_append_to_args disc s of Inl e \<Rightarrow> Inl e | Inr s' \<Rightarrow> Inr (s', False))"
| "exec_op s (AddToKwargs n) =
     (case exec_add_to_kwargs n s of Inl e \<Rightarrow> Inl e | Inr s' \<Rightarrow> Inr (s', False))"
| "exec_op s (ConsumeArgument req oparg) = Inr (if argi s = [] then abort s else s, True)"
| "exec_op s (SetGroup g opt rep) = Inr (exec_set_group g s, False)"
| "exec_op s FlushMultioption =
     (case exec_flush_multioption s of Inl e \<Rightarrow> Inl e | Inr s' \<Rightarrow> Inr (s', False))"
| "exec_op s (Jump a) = Inr (jump a s, False)"
| "exec_op s (BranchOnO a) = Inr (if truthy (o_reg s) then jump a s else s, False)"
| "exec_op s (Comment c) = Inr (s, False)"
| "exec_op s (End i n) = Inr (s, False)"
| "exec_op s op = Inl (AppealConfigurationError ''unhandled opcode'')"

text \<open>
  The first part of the loop of \<^verbatim>\<open>__call__\<close>:
  \<^verbatim>\<open>
  for ip, op in self:
      ...
  else:
      # we finished the program
      op = None
  \<close>
  It ends with the pending \<^verbatim>\<open>consume_argument\<close> in \<^verbatim>\<open>op\<close>, or with \<^verbatim>\<open>op = None\<close>. A program
  may jump in a circle, so the number of instructions executed is bounded by the first
  argument; \<open>None\<close> means that the bound was reached.
\<close>

fun phase1 :: "nat \<Rightarrow> istate \<Rightarrow> (error + istate \<times> instr option) option" where
  "phase1 0 s = None"
| "phase1 (Suc n) s =
     (case next_op s of
        Inl e \<Rightarrow> Some (Inl e)
      | Inr (s1, None) \<Rightarrow> Some (Inr (s1, None))
      | Inr (s1, Some op) \<Rightarrow>
          (case exec_op s1 op of
             Inl e \<Rightarrow> Some (Inl e)
           | Inr (s2, brk) \<Rightarrow> if brk then Some (Inr (s2, Some op)) else phase1 n s2))"

subsection \<open>Loop part two: consuming a command-line argument\<close>

text \<open>
  How one pass of the loop ends: the interpreter goes on with the next pass, or
  \<^verbatim>\<open>__call__\<close> returns a converter.
\<close>

datatype outcome = Running istate | Returned nat istate

text \<open>
  \<^verbatim>\<open>is_oparg = op and (op.op == opcode.consume_argument) and op.is_oparg\<close>, where \<^verbatim>\<open>op\<close> is
  the pending instruction or \<^verbatim>\<open>None\<close>.
\<close>

fun pending_oparg :: "instr option \<Rightarrow> bool" where
  "pending_oparg (Some (ConsumeArgument req oparg)) = oparg"
| "pending_oparg op = False"

text \<open>
  \<^verbatim>\<open>
  doesnt_start_with_a_dash = not a.startswith("-")
  is_a_single_dash = a == "-"
  is_positional_argument = (
      force_positional
      or doesnt_start_with_a_dash
      or is_a_single_dash
      or is_oparg
      )
  \<close>
\<close>

definition is_positional_argument :: "istate \<Rightarrow> instr option \<Rightarrow> string \<Rightarrow> bool" where
  "is_positional_argument s op a =
     (force_positional s \<or> \<not> startswith a ''-'' \<or> a = ''-'' \<or> pending_oparg op)"

text \<open>\<^verbatim>\<open>self.converters[self.command_converter_key]\<close>\<close>

definition root_converter :: "istate \<Rightarrow> error + nat" where
  "root_converter s =
     (case command_converter_key s of
        None \<Rightarrow> Inl KeyError
      | Some k \<Rightarrow> (case map_of (converters s) k of None \<Rightarrow> Inl KeyError | Some r \<Rightarrow> Inr r))"

text \<open>
  The positional branch, entered with \<^verbatim>\<open>a\<close> already taken from \<^verbatim>\<open>argi\<close>:
  \<^verbatim>\<open>
  if is_positional_argument:
      if not op:
          argi.push(a)
          return self.converters[self.command_converter_key]
      self.o = a
      if self.group:
          self.group.count += 1
          self.group.laden = True
      if not is_oparg:
          self.options.unmap_all_child_options()
      break
  \<close>
\<close>

definition consume_positional :: "istate \<Rightarrow> instr option \<Rightarrow> string \<Rightarrow> error + outcome" where
  "consume_positional s op a =
     (case op of
        None \<Rightarrow>
          (case root_converter s of
             Inl e \<Rightarrow> Inl e
           | Inr r \<Rightarrow> Inr (Returned r (s\<lparr>argi := a # argi s\<rparr>)))
      | Some pending \<Rightarrow>
          (let s1 = s\<lparr>o_reg := Some (Str a)\<rparr>;
               s2 = (case group s1 of
                       None \<Rightarrow> s1
                     | Some g \<Rightarrow>
                         s1\<lparr>gheap := (gheap s1)[g := (gheap s1 ! g)
                                \<lparr>count := count (gheap s1 ! g) + 1, laden := True\<rparr>]\<rparr>)
           in if \<not> pending_oparg op
              then (case unmap_all_child_options s2 of
                      Inl e \<Rightarrow> Inl e
                    | Inr s3 \<Rightarrow> Inr (Running s3))
              else Inr (Running s2)))"

text \<open>\<^verbatim>\<open>a.partition("=")\<close>: the part before the first \<^verbatim>\<open>=\<close>, whether there is one, the part after.\<close>

fun partition_eq :: "string \<Rightarrow> string \<times> bool \<times> string" where
  "partition_eq [] = ([], False, [])"
| "partition_eq (c # cs) =
     (if c = CHR ''='' then ([], True, cs)
      else (case partition_eq cs of (before, eq, after) \<Rightarrow> (c # before, eq, after)))"

text \<open>
  \<^verbatim>\<open>
  split_value = None
  try_to_split_value = double_dash or short_option_equals_oparg
  if try_to_split_value:
      a, equals, _split_value = a.partition("=")
      if equals:
          split_value = _split_value
  else:
      split_value = None
  \<close>
  The result is the new \<^verbatim>\<open>a\<close> and \<^verbatim>\<open>split_value\<close>.
\<close>

definition split_token :: "istate \<Rightarrow> string \<Rightarrow> string \<times> string option" where
  "split_token s a =
     (if startswith a ''--'' \<or> short_option_equals_oparg s
      then (case partition_eq a of (before, eq, after) \<Rightarrow> (before, if eq then Some after else None))
      else (a, None))"

text \<open>
  The treatment of what follows the letter of a short option:
  \<^verbatim>\<open>
  remainder = a[2:]
  if remainder:
      if maximum_arguments == 0:
          # more short options.  push them back onto argi.
          pushed_remainder = True
          remainder = "-" + remainder
          argi.push(remainder)
      elif maximum_arguments >= 2:
          if minimum_arguments == maximum_arguments:
              number_of_arguments = maximum_arguments
          else:
              number_of_arguments = f"{minimum_arguments} to {maximum_arguments}"
          raise AppealUsageError(f"-{option}{remainder} isn't allowed, -{option} takes {number_of_arguments} arguments, it must be last")
      # in the remaining cases, we know maximum_arguments is 1
      elif short_option_concatenated_oparg and (minimum_arguments == 0):
          if split_value is not None:
              raise AppealUsageError(f"-{option}{remainder}={split_value} isn't allowed, -{option} must be last because it takes an argument")
          split_value = remainder
      else:
          assert minimum_arguments == maximum_arguments == 1
          raise AppealUsageError(f"-{option}{remainder} isn't allowed, -{option} must be last because it takes an argument")
  \<close>
  The result is the state (with \<^verbatim>\<open>argi\<close> changed by the push) and \<^verbatim>\<open>split_value\<close>.
\<close>

definition handle_remainder ::
  "istate \<Rightarrow> string \<Rightarrow> string \<Rightarrow> pynum \<Rightarrow> pynum \<Rightarrow> string option
     \<Rightarrow> error + istate \<times> string option" where
  "handle_remainder s opt remainder mn mx split_value =
     (if remainder = [] then Inr (s, split_value)
      else if mx = Num 0 then Inr (s\<lparr>argi := (''-'' @ remainder) # argi s\<rparr>, split_value)
      else if le_num (Num 2) mx
      then Inl (AppealUsageError
                  (''-'' @ opt @ remainder @ '' isn't allowed, -'' @ opt @ '' takes ''
                     @ (if mn = mx then str_num mx else str_num mn @ '' to '' @ str_num mx)
                     @ '' arguments, it must be last''))
      else if short_option_concatenated_oparg s \<and> mn = Num 0
      then (case split_value of
              Some v \<Rightarrow>
                Inl (AppealUsageError
                       (''-'' @ opt @ remainder @ ''='' @ v @ '' isn't allowed, -'' @ opt
                          @ '' must be last because it takes an argument''))
            | None \<Rightarrow> Inr (s, Some remainder))
      else if \<not> (mn = mx \<and> mx = Num 1) then Inl AssertionError
      else Inl (AppealUsageError
                  (''-'' @ opt @ remainder @ '' isn't allowed, -'' @ opt
                     @ '' must be last because it takes an argument'')))"

text \<open>
  \<^verbatim>\<open>
  def rewind_one_instruction(self):
      if self.ip is None:
          raise StopIteration
      self.ip.jump_relative(-1)
  \<close>
  where \<^verbatim>\<open>jump_relative\<close> raises \<^verbatim>\<open>RuntimeError\<close> when the new index is outside the program.
\<close>

definition rewind_one_instruction :: "istate \<Rightarrow> error + istate" where
  "rewind_one_instruction s =
     (case ip s of
        None \<Rightarrow> Inl StopIteration
      | Some (p, i) \<Rightarrow>
          if i = 0 \<or> length (opcodes p) \<le> i - 1 then Inl RuntimeError
          else Inr (s\<lparr>ip := Some (p, i - 1)\<rparr>))"

text \<open>
  What follows the lookup of the option, the same for long and short options:
  \<^verbatim>\<open>
  laden_group = id_to_group[group_id]
  denormalized_option = denormalize_option(option)
  # mark argument group as having had stuff done in it.
  laden_group.laden = True
  # we have an option to run.
  # the existing consume_argument op will have to wait.
  if op:
      assert op.op == opcode.consume_argument
      self.rewind_one_instruction()
      op = None
  # throw away child options mapped below our option's sibling.
  self.options.pop_until_token(token)
  # and push a fresh options dict.
  self.options.push()
  if split_value is not None:
      if maximum_arguments != 1:
          if maximum_arguments == 0:
              raise AppealUsageError(f"{denormalized_option}={split_value} isn't allowed, because {denormalize_option} doesn't take an argument")
          if maximum_arguments >= 2:
              raise AppealUsageError(f"{denormalized_option}={split_value} isn't allowed, because {denormalize_option} takes multiple arguments")
      argi.push(split_value)
  self.call(program)
  break
  \<close>
  (The two messages print the function \<^verbatim>\<open>denormalize_option\<close> itself; its \<^verbatim>\<open>repr\<close> is
  written \<^verbatim>\<open><function denormalize_option>\<close> here.)
\<close>

definition enter_option ::
  "istate \<Rightarrow> instr option \<Rightarrow> string \<Rightarrow> program \<Rightarrow> string \<Rightarrow> pynum \<Rightarrow> nat \<Rightarrow> string option
     \<Rightarrow> error + istate" where
  "enter_option s op opt p g mx token split_value =
     (case map_of (id_to_group s) g of
        None \<Rightarrow> Inl KeyError
      | Some lg \<Rightarrow>
          (case denormalize_option opt of
             Inl e \<Rightarrow> Inl e
           | Inr d \<Rightarrow>
               (let s1 = s\<lparr>gheap := (gheap s)[lg := (gheap s ! lg)\<lparr>laden := True\<rparr>]\<rparr>
                in case (case op of None \<Rightarrow> Inr s1 | Some pending \<Rightarrow> rewind_one_instruction s1) of
                     Inl e \<Rightarrow> Inl e
                   | Inr s2 \<Rightarrow>
                       (case pop_until_token token s2 of
                          Inl e \<Rightarrow> Inl e
                        | Inr s3 \<Rightarrow>
                            (let s4 = options_push s3
                             in case split_value of
                                  None \<Rightarrow> Inr (call p s4)
                                | Some v \<Rightarrow>
                                    if mx \<noteq> Num 1 \<and> mx = Num 0
                                    then Inl (AppealUsageError
                                                (d @ ''='' @ v @ '' isn't allowed, because ''
                                                   @ ''<function denormalize_option>''
                                                   @ '' doesn't take an argument''))
                                    else if mx \<noteq> Num 1 \<and> le_num (Num 2) mx
                                    then Inl (AppealUsageError
                                                (d @ ''='' @ v @ '' isn't allowed, because ''
                                                   @ ''<function denormalize_option>''
                                                   @ '' takes multiple arguments''))
                                    else Inr (call p (s4\<lparr>argi := v # argi s4\<rparr>)))))))"

text \<open>
  The option branch, entered with \<^verbatim>\<open>a\<close> already taken from \<^verbatim>\<open>argi\<close> and \<^verbatim>\<open>a\<close> not \<^verbatim>\<open>--\<close>:
  \<^verbatim>\<open>
  double_dash = a.startswith("--")
  ... (split_value) ...
  if double_dash:
      option = a
      program, group_id, minimum_arguments, maximum_arguments, token = self.options[option]
  else:
      # strip off this short option by itself:
      option = a[1]
      program, group_id, minimum_arguments, maximum_arguments, token = self.options[option]
      # handle the remainder.
      ...
  \<close>
\<close>

definition invoke_option :: "istate \<Rightarrow> instr option \<Rightarrow> string \<Rightarrow> error + outcome" where
  "invoke_option s op a0 =
     (case split_token s a0 of
        (a, split_value) \<Rightarrow>
          if startswith a0 ''--''
          then (case getitem s a of
                  Inl e \<Rightarrow> Inl e
                | Inr (p, g, mn, mx, token) \<Rightarrow>
                    (case enter_option (s\<lparr>program_var := Some p\<rparr>) op a p g mx token split_value of
                       Inl e \<Rightarrow> Inl e
                     | Inr s' \<Rightarrow> Inr (Running s')))
          else if length a < 2 then Inl IndexError
          else (case getitem s [a ! 1] of
                  Inl e \<Rightarrow> Inl e
                | Inr (p, g, mn, mx, token) \<Rightarrow>
                    (case handle_remainder (s\<lparr>program_var := Some p\<rparr>) [a ! 1] (drop 2 a)
                            mn mx split_value of
                       Inl e \<Rightarrow> Inl e
                     | Inr (s1, split_value') \<Rightarrow>
                         (case enter_option s1 op [a ! 1] p g mx token split_value' of
                            Inl e \<Rightarrow> Inl e
                          | Inr s' \<Rightarrow> Inr (Running s')))))"

text \<open>
  The second part of the loop of \<^verbatim>\<open>__call__\<close>, \<^verbatim>\<open>for a in argi:\<close>. The iterator hands out
  the next string and forgets it; the third argument of \<open>phase2\<close> is \<open>argi\<close> of the state.
  The loop goes round again only after \<^verbatim>\<open>--\<close>:
  \<^verbatim>\<open>
  if not option_space_oparg:
      raise AppealConfigurationError("oops, currently the only supported value of option_space_oparg is True")
  if a == "--":
      assert not force_positional
      force_positional = self.appeal.root.force_positional = True
      continue
  \<close>
\<close>

fun phase2 :: "istate \<Rightarrow> instr option \<Rightarrow> string list \<Rightarrow> error + outcome" where
  "phase2 s op [] = Inr (Running (s\<lparr>argi := []\<rparr>))"
| "phase2 s op (a # rest) =
     (if is_positional_argument s op a then consume_positional (s\<lparr>argi := rest\<rparr>) op a
      else if \<not> option_space_oparg s
      then Inl (AppealConfigurationError
                  ''oops, currently the only supported value of option_space_oparg is True'')
      else if a = ''--''
      then (if force_positional s then Inl AssertionError
            else phase2 (s\<lparr>argi := rest, force_positional := True,
                           root_force_positional := True\<rparr>) op rest)
      else invoke_option (s\<lparr>argi := rest\<rparr>) op a)"

subsection \<open>The loop and the end of the parse\<close>

text \<open>
  After the loop:
  \<^verbatim>\<open>
  self.unwind()
  satisfied = True
  ag = self.group
  assert ag
  if not ag.satisfied():
      if ag.minimum == ag.maximum:
          plural = "" if ag.minimum == 1 else "s"
          middle = f"{ag.minimum} argument{plural}"
      else:
          middle = f"at least {ag.minimum} arguments but no more than {ag.maximum} arguments"
      program = self.program
      message = f"{program.name} requires {middle} in this argument group."
      raise AppealUsageError(message)
  return self.converters[self.command_converter_key]
  \<close>
\<close>

definition arity_message :: "program \<Rightarrow> ArgumentGroup \<Rightarrow> string" where
  "arity_message p ag =
     p_name p @ '' requires ''
       @ (if minimum ag = maximum ag
          then str_num (minimum ag) @ '' argument'' @ (if minimum ag = Num 1 then '''' else ''s'')
          else ''at least '' @ str_num (minimum ag) @ '' arguments but no more than ''
                 @ str_num (maximum ag) @ '' arguments'')
       @ '' in this argument group.''"

definition end_of_parse :: "istate \<Rightarrow> error + nat \<times> istate" where
  "end_of_parse s =
     (let s1 = unwind s
      in case group s1 of
           None \<Rightarrow> Inl AssertionError
         | Some g \<Rightarrow>
             if length (gheap s1) \<le> g then Inl InvalidAddress
             else if \<not> satisfied (gheap s1 ! g)
             then Inl (AppealUsageError (arity_message (program s1) (gheap s1 ! g)))
             else (case root_converter s1 of Inl e \<Rightarrow> Inl e | Inr r \<Rightarrow> Inr (r, s1)))"

text \<open>
  \<^verbatim>\<open>CharmInterpreter.__call__\<close>, from \<^verbatim>\<open>while self.running() or argi:\<close> on. One pass of the
  loop is part one followed by part two. The first argument bounds the number of passes
  and, in each pass, the number of instructions executed; \<open>None\<close> means that the bound
  was reached. The result is the converter returned and the final state, or the
  exception raised.
\<close>

fun run :: "nat \<Rightarrow> istate \<Rightarrow> (error + nat \<times> istate) option" where
  "run 0 s = None"
| "run (Suc n) s =
     (if running s \<or> argi s \<noteq> []
      then (case phase1 n s of
              None \<Rightarrow> None
            | Some (Inl e) \<Rightarrow> Some (Inl e)
            | Some (Inr (s1, op)) \<Rightarrow>
                (case phase2 s1 op (argi s1) of
                   Inl e \<Rightarrow> Some (Inl e)
                 | Inr (Returned r s2) \<Rightarrow> Some (Inr (r, s2))
                 | Inr (Running s2) \<Rightarrow> run n s2))
      else Some (end_of_parse s))"

text \<open>The state in which a pass of the loop ends.\<close>

fun outcome_state :: "outcome \<Rightarrow> istate" where
  "outcome_state (Running s) = s"
| "outcome_state (Returned r s) = s"

subsection \<open>Short options that take no value\<close>

text \<open>
  The letters \<open>xs\<close> name options that take no value in a program when every
  \<^verbatim>\<open>map_option\<close> instruction for one of them maps it to a program whose total maximum is 0,
  and neither the program nor the programs of these options wait for an oparg (no
  \<^verbatim>\<open>consume_argument\<close> with \<^verbatim>\<open>is_oparg\<close>). The programs of other options are not looked at.
\<close>

fun no_value_instr :: "string \<Rightarrow> instr \<Rightarrow> bool"
  and no_value_program :: "string \<Rightarrow> program \<Rightarrow> bool" where
  "no_value_instr xs (MapOption opt p cl prm k g) =
     (opt \<in> set (map (\<lambda>x. [x]) xs) \<longrightarrow> maximum (total p) = Num 0 \<and> no_value_program xs p)"
| "no_value_instr xs (ConsumeArgument req oparg) = (\<not> oparg)"
| "no_value_instr xs (Jump a) = True"
| "no_value_instr xs (BranchOnO a) = True"
| "no_value_instr xs (CreateConverter prm c k cmd) = True"
| "no_value_instr xs (LoadConverter k) = True"
| "no_value_instr xs (LoadO k) = True"
| "no_value_instr xs (AppendToArgs cl prm disc) = True"
| "no_value_instr xs (AddToKwargs n) = True"
| "no_value_instr xs FlushMultioption = True"
| "no_value_instr xs (SetGroup g opt rep) = True"
| "no_value_instr xs (End i n) = True"
| "no_value_instr xs NoOp = True"
| "no_value_instr xs (Comment c) = True"
| "no_value_instr xs (Label i n) = True"
| "no_value_instr xs (JumpToLabel i) = True"
| "no_value_instr xs (BranchOnOToLabel i) = True"
| "no_value_program xs (Program n i ops os t po) = list_all (no_value_instr xs) ops"

text \<open>
  What holds of every state of a run in which only options of \<open>xs\<close> are invoked, when
  \<open>xs\<close> take no value in the program: the command line is still read for options, the
  programs in the instruction pointer and on the call stack are programs in which \<open>xs\<close>
  take no value, and so is every program that an options dict holds for a letter of
  \<open>xs\<close>, whose total maximum is 0.
\<close>

definition no_value_entry :: "string \<Rightarrow> string \<times> program \<times> string \<Rightarrow> bool" where
  "no_value_entry xs e =
     (fst e \<in> set (map (\<lambda>x. [x]) xs)
        \<longrightarrow> maximum (total (fst (snd e))) = Num 0 \<and> no_value_program xs (fst (snd e)))"

definition no_value_ip :: "string \<Rightarrow> (program \<times> nat) option \<Rightarrow> bool" where
  "no_value_ip xs i = (case i of None \<Rightarrow> True | Some (p, k) \<Rightarrow> no_value_program xs p)"

definition no_value_state :: "string \<Rightarrow> istate \<Rightarrow> bool" where
  "no_value_state xs s =
     (\<not> force_positional s
      \<and> no_value_ip xs (ip s)
      \<and> list_all (\<lambda>f. no_value_ip xs (fr_ip f)) (call_stack s)
      \<and> list_all (\<lambda>d. list_all (no_value_entry xs) (snd d)) (opt_dicts s))"

section \<open>Compiled programs used as examples\<close>




text \<open>
  The programs for a command with three boolean options and one optional positional
  parameter,
  \<^verbatim>\<open>
  def flags(x='', *, a=False, b=False, c=False): ...
  \<close>
\<close>

definition prog_flag :: "string \<Rightarrow> string \<Rightarrow> program" where
  "prog_flag letter pid' =
     bool_option_program (''flags -'' @ letter) pid' (''-'' @ letter) letter
       (''c-1.'' @ letter @ ''-1'') ''c-1''"

definition prog_flags :: program where
  "prog_flags =
     Program ''flags'' ''program-1''
       [SetGroup (new_group (Num 0) (Num 0) ''flags ag-1'' False) False False,
        CreateConverter ''flags'' ConverterCls ''c-1'' True,
        MapOption ''a'' (prog_flag ''a'' ''program-2'') ''flags'' ''a'' ''c-1'' ''flags ag-1'',
        MapOption ''b'' (prog_flag ''b'' ''program-3'') ''flags'' ''b'' ''c-1'' ''flags ag-1'',
        MapOption ''c'' (prog_flag ''c'' ''program-4'') ''flags'' ''c'' ''c-1'' ''flags ag-1'',
        SetGroup (new_group (Num 1) (Num 1) ''flags ag-2'' True) True False,
        LoadConverter ''c-1'',
        ConsumeArgument False False,
        AppendToArgs ''flags'' ''x'' False,
        End ''program-1'' ''flags'']
       [(''a'', None), (''b'', None), (''c'', None)]
       (new_group (Num 0) (Num 1) ''ag-1'' False) None"

text \<open>
  The programs for a command whose option \<^verbatim>\<open>-f\<close> takes exactly one optional value,
  \<^verbatim>\<open>
  def f_opt(value='none'): ...
  def tool(*, f:f_opt=None): ...
  \<close>
  The program of \<^verbatim>\<open>-f\<close> consumes its value as an oparg inside an optional group; its total
  is (0, 1).
\<close>

definition prog_f :: program where
  "prog_f =
     Program ''tool -f'' ''program-2''
       [SetGroup (new_group (Num 0) (Num 0) ''tool -f ag-1'' False) False False,
        CreateConverter ''f_opt'' ConverterCls ''c-1.f-1'' True,
        LoadConverter ''c-1'',
        AddToKwargs ''f'',
        SetGroup (new_group (Num 1) (Num 1) ''tool -f ag-2'' True) True False,
        LoadConverter ''c-1.f-1'',
        ConsumeArgument False True,
        AppendToArgs ''f_opt'' ''value'' False,
        End ''program-2'' ''tool -f'']
       [] (new_group (Num 0) (Num 1) ''ag-2'' False) (Some ''-f'')"

definition prog_tool :: program where
  "prog_tool =
     Program ''tool'' ''program-1''
       [SetGroup (new_group (Num 0) (Num 0) ''tool ag-1'' False) False False,
        CreateConverter ''tool'' ConverterCls ''c-1'' True,
        MapOption ''f'' prog_f ''tool'' ''f'' ''c-1'' ''tool ag-1'',
        End ''program-1'' ''tool'']
       [(''f'', None)] (new_group (Num 0) (Num 0) ''ag-1'' False) None"

text \<open>
  What a test reads off the result of a run: the converter returned, the converters of
  the store with their arguments, the command line left over and the flag of the root
  \<^verbatim>\<open>Appeal\<close> object.
\<close>

definition tree_of :: "nat \<times> istate \<Rightarrow> nat \<times> heap \<times> string list \<times> bool" where
  "tree_of r = (fst r, heap (snd r), argi (snd r), root_force_positional (snd r))"

definition result_of :: "(error + nat \<times> istate) option \<Rightarrow> (error + nat \<times> heap \<times> string list \<times> bool) option" where
  "result_of r = map_option (map_sum id tree_of) r"

text \<open>
  The state in which part one of the loop hands over to part two, for a program and a
  command line under the default parsing semantics.
\<close>

definition after_part_one :: "program \<Rightarrow> string list \<Rightarrow> bool \<Rightarrow> istate \<times> instr option" where
  "after_part_one p args root_fp =
     (case phase1 20 (init_state p args root_fp True True True) of
        Some (Inr r) \<Rightarrow> r
      | _ \<Rightarrow> (init_state p args root_fp True True True, None))"





section \<open>Properties\<close>

subsection \<open>Option names\<close>

lemma startswith_dash: "startswith s ''-'' \<longleftrightarrow> (\<exists>t. s = CHR ''-'' # t)"
  by (cases s) (auto simp: startswith_def)

lemma length_two: "length s = 2 \<longleftrightarrow> (\<exists>a b. s = [a, b])"
  by (auto simp: numeral_2_eq_2 length_Suc_conv)

text \<open>
  Claim C9. Every option string that \<open>normalize_option\<close> accepts (it starts with a dash,
  its length is neither 1 nor 3, and it has length 2 or starts with two dashes) is
  normalised without an assertion failure, and \<open>denormalize_option\<close> maps the normalised
  form back to the string itself.
\<close>

theorem normalize_denormalize_roundtrip:
  assumes "startswith s ''-''"
    and "length s \<noteq> 1"
    and "length s \<noteq> 3"
    and "length s = 2 \<or> startswith s ''--''"
  shows "\<exists>n. normalize_option s = Inr n \<and> denormalize_option n = Inr s"
proof (cases "length s = 2")
  case True
  then obtain a b where s: "s = [a, b]"
    by (auto simp: length_two)
  with assms(1) have "a = CHR ''-''"
    by (simp add: startswith_def)
  with s show ?thesis
    by (simp add: normalize_option_def denormalize_option_def startswith_def)
next
  case False
  with assms(4) have dd: "startswith s ''--''"
    by simp
  from assms(1) have ne: "s \<noteq> []"
    by (auto simp: startswith_def)
  from False assms(1,2,3) dd ne show ?thesis
    by (simp add: normalize_option_def denormalize_option_def)
qed

theorem normalize_denormalize_roundtrip_witness:
  "startswith ''--verbose'' ''-'' \<and> length ''--verbose'' \<noteq> 1 \<and> length ''--verbose'' \<noteq> 3
   \<and> (length ''--verbose'' = 2 \<or> startswith ''--verbose'' ''--'')
   \<and> (\<exists>n. normalize_option ''--verbose'' = Inr n \<and> denormalize_option n = Inr ''--verbose'')"
proof -
  have h1: "startswith ''--verbose'' ''-''" by (simp add: startswith_def)
  have h2: "length ''--verbose'' \<noteq> 1" by simp
  have h3: "length ''--verbose'' \<noteq> 3" by simp
  have h4: "length ''--verbose'' = 2 \<or> startswith ''--verbose'' ''--''"
    by (simp add: startswith_def)
  from normalize_denormalize_roundtrip [OF h1 h2 h3 h4] h1 h2 h3 h4 show ?thesis
    by simp
qed

subsection \<open>Argument groups\<close>

text \<open>
  Claim C1. For every state of an argument group, \<open>satisfied\<close> holds exactly when the
  group is optional, untouched (count zero) and not laden, or when the count lies
  between the minimum and the maximum (the maximum may be infinite).
\<close>

theorem satisfied_iff:
  "satisfied g \<longleftrightarrow>
     (optional g \<and> count g = 0 \<and> \<not> laden g)
     \<or> (le_num (minimum g) (Num (count g)) \<and> le_num (Num (count g)) (maximum g))"
  by (auto simp: satisfied_def)

theorem satisfied_iff_witness:
  "satisfied \<lparr>minimum = Num 1, maximum = Inf, optional = True, gid = ''ag-1'',
              count = 0, laden = False\<rparr>
   \<and> \<not> satisfied \<lparr>minimum = Num 1, maximum = Inf, optional = True, gid = ''ag-1'',
              count = 0, laden = True\<rparr>
   \<and> satisfied \<lparr>minimum = Num 1, maximum = Inf, optional = False, gid = ''ag-1'',
              count = 7, laden = True\<rparr>"
  using satisfied_iff [of "\<lparr>minimum = Num 1, maximum = Inf, optional = True, gid = ''ag-1'',
              count = 0, laden = False\<rparr>"]
    satisfied_iff [of "\<lparr>minimum = Num 1, maximum = Inf, optional = True, gid = ''ag-1'',
              count = 0, laden = True\<rparr>"]
    satisfied_iff [of "\<lparr>minimum = Num 1, maximum = Inf, optional = False, gid = ''ag-1'',
              count = 7, laden = True\<rparr>"]
  by simp

subsection \<open>Finalization: the aggregate arity\<close>

lemma drop_del_at: "i < length xs \<Longrightarrow> drop i (del_at i xs) = drop (Suc i) xs"
  by (simp add: del_at_def min_def)

lemma length_del_at: "i < length xs \<Longrightarrow> length (del_at i xs) = length xs - 1"
  by (simp add: del_at_def)

lemma scan_op_arity:
  assumes "scan_op s op = Inr s'"
  shows "(f_optional s', f_total s') = arity_op (f_optional s, f_total s) op"
  using assms
  by (cases op) (auto simp: next_i_def delete_current_def Let_def split: if_splits)

lemma scan_op_group_inv:
  assumes "scan_op s op = Inr s'" and "\<forall>j. f_group s = Some j \<longrightarrow> j < f_i s"
    and "f_i s < length (f_p s)"
  shows "\<forall>j. f_group s' = Some j \<longrightarrow> j < f_i s'"
  using assms
  by (cases op) (auto simp: next_i_def delete_current_def Let_def split: if_splits)

lemma scan_op_rest:
  assumes "scan_op s op = Inr s'" and "\<forall>j. f_group s = Some j \<longrightarrow> j < f_i s"
    and "f_i s < length (f_p s)"
  shows "drop (f_i s') (f_p s') = drop (Suc (f_i s)) (f_p s)"
  using assms
  by (cases op)
    (auto simp: next_i_def delete_current_def Let_def drop_del_at
      split: if_splits option.splits)

lemma finalize_scan_fold:
  assumes "finalize_scan s = Inr s'" and "\<forall>j. f_group s = Some j \<longrightarrow> j < f_i s"
  shows "(f_optional s', f_total s')
           = foldl arity_op (f_optional s, f_total s) (drop (f_i s) (f_p s))"
  using assms
proof (induction s rule: finalize_scan.induct)
  case (1 s)
  show ?case
  proof (cases "f_i s < length (f_p s)")
    case False
    with "1.prems" show ?thesis by simp
  next
    case True
    obtain s1 where s1: "scan_op s (f_p s ! f_i s) = Inr s1"
      using "1.prems"(1) True by (auto split: sum.splits)
    have run: "finalize_scan s1 = Inr s'"
      using "1.prems"(1) True s1 by simp
    have inv: "\<forall>j. f_group s1 = Some j \<longrightarrow> j < f_i s1"
      using scan_op_group_inv [OF s1 "1.prems"(2) True] .
    have ih: "(f_optional s', f_total s')
                = foldl arity_op (f_optional s1, f_total s1) (drop (f_i s1) (f_p s1))"
      using "1.IH" [OF True s1 run inv] .
    have rest: "drop (f_i s1) (f_p s1) = drop (Suc (f_i s)) (f_p s)"
      using scan_op_rest [OF s1 "1.prems"(2) True] .
    have split: "drop (f_i s) (f_p s) = (f_p s ! f_i s) # drop (Suc (f_i s)) (f_p s)"
      using True by (simp add: Cons_nth_drop_Suc)
    show ?thesis
      using ih rest split scan_op_arity [OF s1] by simp
  qed
qed

lemma finalize_scan_returns:
  assumes "\<forall>l n. Label l n \<notin> set (drop (f_i s) (f_p s))"
    and "\<forall>j. f_group s = Some j \<longrightarrow> j < f_i s"
  shows "\<exists>s'. finalize_scan s = Inr s'"
  using assms
proof (induction s rule: finalize_scan.induct)
  case (1 s)
  show ?case
  proof (cases "f_i s < length (f_p s)")
    case False
    then show ?thesis by simp
  next
    case True
    have split: "drop (f_i s) (f_p s) = (f_p s ! f_i s) # drop (Suc (f_i s)) (f_p s)"
      using True by (simp add: Cons_nth_drop_Suc)
    have mem: "f_p s ! f_i s \<in> set (drop (f_i s) (f_p s))"
      by (subst split) simp
    have nolabel: "\<forall>l n. f_p s ! f_i s \<noteq> Label l n"
      using "1.prems"(1) mem by metis
    have "\<exists>s1. scan_op s (f_p s ! f_i s) = Inr s1"
      using nolabel by (cases "f_p s ! f_i s") (auto simp: Let_def)
    then obtain s1 where s1: "scan_op s (f_p s ! f_i s) = Inr s1" ..
    have inv: "\<forall>j. f_group s1 = Some j \<longrightarrow> j < f_i s1"
      using scan_op_group_inv [OF s1 "1.prems"(2) True] .
    have rest: "drop (f_i s1) (f_p s1) = drop (Suc (f_i s)) (f_p s)"
      using scan_op_rest [OF s1 "1.prems"(2) True] .
    have "\<forall>l n. Label l n \<notin> set (drop (f_i s1) (f_p s1))"
      using "1.prems"(1) split rest by auto
    from "1.IH" [OF True s1 this inv] s1 True show ?thesis
      by simp
  qed
qed

text \<open>
  Claim C2, as the code has it. Scanning a \<^verbatim>\<open>consume_argument\<close> adds one to the
  whole-program maximum and to the minimum and maximum of the active group (the group
  of the \<^verbatim>\<open>set_group\<close> scanned last, if any); it adds one to the whole-program
  minimum only when the active group is not optional. Scanning a \<^verbatim>\<open>set_group\<close> that is
  repeating sets the whole-program maximum to infinity. Every instruction of the draft is
  scanned once, in order: when the scan returns, the whole-program group is the result
  of applying these updates from left to right, and without labels the scan does return.
\<close>

theorem finalize_scan_arity:
  "(\<exists>s'. scan_op s (ConsumeArgument req oparg) = Inr s'
       \<and> maximum (f_total s') = incr (maximum (f_total s))
       \<and> minimum (f_total s')
           = (if f_optional s then minimum (f_total s) else incr (minimum (f_total s)))
       \<and> (\<forall>j g opt rep. f_group s = Some j \<and> j < length (f_p s)
             \<and> f_p s ! j = SetGroup g opt rep
           \<longrightarrow> f_p s' ! j
               = SetGroup (g\<lparr>minimum := incr (minimum g), maximum := incr (maximum g)\<rparr>)
                   opt rep))
   \<and> (\<exists>s'. scan_op s (SetGroup g0 opt0 True) = Inr s' \<and> maximum (f_total s') = Inf
         \<and> f_optional s' = opt0 \<and> f_group s' = Some (f_i s))
   \<and> (\<forall>s'. finalize_scan (finalize_init p tot) = Inr s'
         \<longrightarrow> f_total s' = snd (foldl arity_op (False, tot) p))
   \<and> ((\<forall>l n. Label l n \<notin> set p) \<longrightarrow> (\<exists>s'. finalize_scan (finalize_init p tot) = Inr s'))"
proof (intro conjI)
  show "\<exists>s'. scan_op s (ConsumeArgument req oparg) = Inr s'
       \<and> maximum (f_total s') = incr (maximum (f_total s))
       \<and> minimum (f_total s')
           = (if f_optional s then minimum (f_total s) else incr (minimum (f_total s)))
       \<and> (\<forall>j g opt rep. f_group s = Some j \<and> j < length (f_p s)
             \<and> f_p s ! j = SetGroup g opt rep
           \<longrightarrow> f_p s' ! j
               = SetGroup (g\<lparr>minimum := incr (minimum g), maximum := incr (maximum g)\<rparr>)
                   opt rep)"
    by (auto simp: next_i_def Let_def)
next
  show "\<exists>s'. scan_op s (SetGroup g0 opt0 True) = Inr s' \<and> maximum (f_total s') = Inf
         \<and> f_optional s' = opt0 \<and> f_group s' = Some (f_i s)"
    by (simp add: next_i_def)
next
  show "\<forall>s'. finalize_scan (finalize_init p tot) = Inr s'
         \<longrightarrow> f_total s' = snd (foldl arity_op (False, tot) p)"
  proof (intro allI impI)
    fix s'
    assume run: "finalize_scan (finalize_init p tot) = Inr s'"
    have inv: "\<forall>j. f_group (finalize_init p tot) = Some j \<longrightarrow> j < f_i (finalize_init p tot)"
      by (simp add: finalize_init_def)
    have "(f_optional s', f_total s')
            = foldl arity_op (f_optional (finalize_init p tot), f_total (finalize_init p tot))
                (drop (f_i (finalize_init p tot)) (f_p (finalize_init p tot)))"
      using finalize_scan_fold [OF run inv] .
    then have "(f_optional s', f_total s') = foldl arity_op (False, tot) p"
      by (simp add: finalize_init_def)
    then show "f_total s' = snd (foldl arity_op (False, tot) p)"
      by (metis snd_conv)
  qed
next
  show "(\<forall>l n. Label l n \<notin> set p) \<longrightarrow> (\<exists>s'. finalize_scan (finalize_init p tot) = Inr s')"
  proof
    assume nl: "\<forall>l n. Label l n \<notin> set p"
    have a: "\<forall>l n. Label l n \<notin> set (drop (f_i (finalize_init p tot)) (f_p (finalize_init p tot)))"
      using nl by (simp add: finalize_init_def)
    have inv: "\<forall>j. f_group (finalize_init p tot) = Some j \<longrightarrow> j < f_i (finalize_init p tot)"
      by (simp add: finalize_init_def)
    show "\<exists>s'. finalize_scan (finalize_init p tot) = Inr s'"
      using finalize_scan_returns [OF a inv] .
  qed
qed

lemma finalize_scan_draft_cmd:
  "map_sum id (\<lambda>s. (f_p s, total_bounds s)) (finalize_scan (finalize_init draft_cmd total_cmd))
     = Inr ([SetGroup (new_group (Num 1) (Num 1) ''cmd ag-1'' False) False False,
             CreateConverter ''cmd'' ConverterCls ''c-1'' True,
             LoadConverter ''c-1'',
             ConsumeArgument True False,
             AppendToArgs ''cmd'' ''a'' False,
             SetGroup (new_group (Num 1) (Num 1) ''cmd ag-2'' True) True False,
             ConsumeArgument False False,
             AppendToArgs ''cmd'' ''b'' False,
             End ''program-1'' ''cmd''],
            (Num 1, Num 2))"
  by code_simp

text \<open>
  The claim as stated fails on this draft: two \<^verbatim>\<open>consume_argument\<close> instructions are
  scanned, and the whole-program minimum ends at 1, not 2, because the second one lies in
  an optional group.
\<close>

theorem finalize_scan_minimum_counterexample:
  "map_sum id total_bounds (finalize_scan (finalize_init draft_cmd total_cmd))
     = Inr (Num 1, Num 2)
   \<and> length (filter is_consume_argument draft_cmd) = 2"
  by code_simp

theorem finalize_scan_arity_witness:
  "(\<forall>l n. Label l n \<notin> set draft_cmd)
   \<and> (\<exists>s'. finalize_scan (finalize_init draft_cmd total_cmd) = Inr s'
         \<and> f_total s' = snd (foldl arity_op (False, total_cmd) draft_cmd))
   \<and> (\<exists>s'. scan_op (finalize_init [SetGroup total_cmd True False] total_cmd
                      \<lparr>f_group := Some 0, f_optional := True, f_i := 1\<rparr>)
               (ConsumeArgument False False) = Inr s'
         \<and> f_p s' ! 0 = SetGroup (total_cmd\<lparr>minimum := Num 1, maximum := Num 1\<rparr>) True False
         \<and> minimum (f_total s') = Num 0 \<and> maximum (f_total s') = Num 1)"
proof -
  have nl: "\<forall>l n. Label l n \<notin> set draft_cmd"
    by (simp add: draft_cmd_def)
  have g: "f_group (finalize_init [SetGroup total_cmd True False] total_cmd
                      \<lparr>f_group := Some 0, f_optional := True, f_i := 1\<rparr>) = Some 0
           \<and> 0 < length (f_p (finalize_init [SetGroup total_cmd True False] total_cmd
                      \<lparr>f_group := Some 0, f_optional := True, f_i := 1\<rparr>))
           \<and> f_p (finalize_init [SetGroup total_cmd True False] total_cmd
                      \<lparr>f_group := Some 0, f_optional := True, f_i := 1\<rparr>) ! 0
               = SetGroup total_cmd True False"
    by (simp add: finalize_init_def)
  show ?thesis
    using nl g
      finalize_scan_arity [of "finalize_init [SetGroup total_cmd True False] total_cmd
                      \<lparr>f_group := Some 0, f_optional := True, f_i := 1\<rparr>"
        False False total_cmd True draft_cmd total_cmd]
    by (auto simp: finalize_init_def total_cmd_def new_group_def)
qed

subsection \<open>Mapping the same option twice in one argument group\<close>









subsection \<open>Promotion of queued converters\<close>

lemma clear_queued_length [simp]: "length (clear_queued h cs) = length h"
  by (induction cs arbitrary: h) auto

lemma update_queued_fields:
  "args_queue ((h[i := (h ! i)\<lparr>queued := v\<rparr>]) ! b) = args_queue (h ! b)
   \<and> args_converters ((h[i := (h ! i)\<lparr>queued := v\<rparr>]) ! b) = args_converters (h ! b)"
  by (cases "i < length h"; cases "i = b") (auto simp: list_update_beyond not_less)

lemma clear_queued_fields:
  "args_queue (clear_queued h cs ! b) = args_queue (h ! b)
   \<and> args_converters (clear_queued h cs ! b) = args_converters (h ! b)"
proof (induction cs arbitrary: h)
  case Nil
  then show ?case by simp
next
  case (Cons c cs)
  show ?case
    using Cons.IH [of "h[c := (h ! c)\<lparr>queued := None\<rparr>]"] update_queued_fields [of h c None b]
    by simp
qed

lemma clear_queued_other:
  "b \<notin> set cs \<Longrightarrow> clear_queued h cs ! b = h ! b"
  by (induction cs arbitrary: h) auto

lemma clear_queued_none:
  "b \<in> set cs \<Longrightarrow> b < length h \<Longrightarrow> queued (clear_queued h cs ! b) = None"
proof (induction cs arbitrary: h)
  case Nil
  then show ?case by simp
next
  case (Cons c cs)
  show ?case
  proof (cases "b \<in> set cs")
    case True
    with Cons.IH [of "h[c := (h ! c)\<lparr>queued := None\<rparr>]"] Cons.prems show ?thesis by simp
  next
    case False
    with Cons.prems have "b = c" by simp
    with False Cons.prems show ?thesis
      by (simp add: clear_queued_other)
  qed
qed

lemma flush_until_last:
  "y \<notin> set q \<Longrightarrow> flush_until y (q @ [y]) = (q @ [y], [])"
  by (induction q) auto

lemma flush_queue_length [simp]: "length (flush_queue h a c) = length h"
  by (auto simp: flush_queue_def split: option.splits prod.splits)

lemma flush_queue_other:
  assumes "b \<noteq> a"
  shows "args_queue (flush_queue h a c ! b) = args_queue (h ! b)
       \<and> args_converters (flush_queue h a c ! b) = args_converters (h ! b)"
  using assms
  by (auto simp: flush_queue_def clear_queued_fields split: option.splits prod.splits)

lemma flush_queue_self:
  assumes "a < length h"
  shows "args_queue (flush_queue h a c ! a)
           = (case c of None \<Rightarrow> args_queue (h ! a)
              | Some x \<Rightarrow> if x \<in> set (args_queue (h ! a))
                          then snd (flush_until x (args_queue (h ! a)))
                          else args_queue (h ! a))"
    and "args_converters (flush_queue h a c ! a)
           = (case c of None \<Rightarrow> args_converters (h ! a)
              | Some x \<Rightarrow> if x \<in> set (args_queue (h ! a))
                          then args_converters (h ! a)
                                 @ map Conv (fst (flush_until x (args_queue (h ! a))))
                          else args_converters (h ! a))"
  using assms
  by (auto simp: flush_queue_def clear_queued_fields split: option.splits prod.splits)

lemma flush_queue_flushed:
  assumes "x \<in> set (args_queue (h ! a))"
    and "ch \<in> set (fst (flush_until x (args_queue (h ! a))))" and "ch < length h"
  shows "queued (flush_queue h a (Some x) ! ch) = None"
  using assms
  by (auto simp: flush_queue_def clear_queued_none split: prod.splits)

lemma is_chain_bound: "is_chain h as \<Longrightarrow> \<forall>a\<in>set as. a < length h"
  by (induction h as rule: is_chain.induct) auto

lemma is_chain_cong:
  assumes "length h' = length h" and "\<forall>a\<in>set as. queued (h' ! a) = queued (h ! a)"
  shows "is_chain h' as = is_chain h as"
  using assms
  by (induction h as rule: is_chain.induct) auto

lemma distinct_bounded_length:
  assumes "distinct as" and "\<forall>a\<in>set as. a < (n::nat)"
  shows "length as \<le> n"
proof -
  have "set as \<subseteq> {..<n}" using assms(2) by auto
  then have "card (set as) \<le> card {..<n}" by (intro card_mono) auto
  with assms(1) show ?thesis by (simp add: distinct_card)
qed

lemma unqueue_calls_chain:
  assumes "is_chain h (a # rest)" and "distinct (a # rest)" and "length (a # rest) \<le> n"
  shows "\<exists>h'. unqueue_calls n h a c = Inr h' \<and> length h' = length h
     \<and> (\<forall>b. b \<notin> set (a # rest) \<longrightarrow>
           args_queue (h' ! b) = args_queue (h ! b)
           \<and> args_converters (h' ! b) = args_converters (h ! b))
     \<and> args_queue (h' ! a) = args_queue (flush_queue h a c ! a)
     \<and> args_converters (h' ! a) = args_converters (flush_queue h a c ! a)"
  using assms
proof (induction rest arbitrary: a n c)
  case Nil
  then obtain m where n: "n = Suc m" by (cases n) auto
  from Nil.prems(1) have a: "a < length h" "queued (h ! a) = None" by auto
  from a n have "unqueue_calls n h a c = Inr (flush_queue h a c)" by simp
  then show ?case
    by (simp add: flush_queue_other)
next
  case (Cons b bs)
  then obtain m where n: "n = Suc m" by (cases n) auto
  from Cons.prems(1) have a: "a < length h" "queued (h ! a) = Some b"
    and chain: "is_chain h (b # bs)" by auto
  from Cons.prems(2) have dist: "distinct (b # bs)" and anb: "a \<notin> set (b # bs)" by auto
  from Cons.prems(3) n have len: "length (b # bs) \<le> m" by simp
  from Cons.IH [OF chain dist len, of "Some a"] obtain h1 where
    h1: "unqueue_calls m h b (Some a) = Inr h1" and l1: "length h1 = length h"
    and fr: "\<forall>x. x \<notin> set (b # bs) \<longrightarrow>
               args_queue (h1 ! x) = args_queue (h ! x)
               \<and> args_converters (h1 ! x) = args_converters (h ! x)"
    by blast
  let ?h2 = "h1[a := (h1 ! a)\<lparr>queued := None\<rparr>]"
  have run: "unqueue_calls n h a c = Inr (flush_queue ?h2 a c)"
    using n a h1 by simp
  have a2: "a < length ?h2" using a l1 by simp
  have same: "args_queue (?h2 ! a) = args_queue (h ! a)"
    "args_converters (?h2 ! a) = args_converters (h ! a)"
    using fr anb update_queued_fields [of h1 a None a] by auto
  have own: "args_queue (flush_queue ?h2 a c ! a) = args_queue (flush_queue h a c ! a)"
    "args_converters (flush_queue ?h2 a c ! a) = args_converters (flush_queue h a c ! a)"
    by (simp_all only: flush_queue_self [OF a2] flush_queue_self [OF a(1)] same)
  have frame: "\<forall>x. x \<notin> set (a # b # bs) \<longrightarrow>
      args_queue (flush_queue ?h2 a c ! x) = args_queue (h ! x)
      \<and> args_converters (flush_queue ?h2 a c ! x) = args_converters (h ! x)"
  proof (intro allI impI)
    fix x assume x: "x \<notin> set (a # b # bs)"
    then have xa: "x \<noteq> a" and xb: "x \<notin> set (b # bs)" by auto
    from flush_queue_other [OF xa, of ?h2 c] update_queued_fields [of h1 a None x] fr xb
    show "args_queue (flush_queue ?h2 a c ! x) = args_queue (h ! x)
      \<and> args_converters (flush_queue ?h2 a c ! x) = args_converters (h ! x)"
      by auto
  qed
  show ?case
    using run own frame l1 by simp
qed

text \<open>
  Claim C6. Let converters \<open>x\<close> and then \<open>y\<close> be queued on the same parent \<open>p\<close>
  (\<open>queue_converter\<close>, both asserts passing), where \<open>p\<close> is not queued or heads a chain of
  queued ancestors without a cycle, and \<open>y\<close> is not already pending on \<open>p\<close>. When \<open>y\<close> is
  promoted first (\<open>unqueue\<close> on \<open>y\<close>), the call returns, the pending queue of \<open>p\<close> is
  emptied, and everything that was pending, then \<open>x\<close>, then \<open>y\<close>, is appended to the
  materialized list \<^verbatim>\<open>args_converters\<close> of \<open>p\<close> in queueing order: \<open>x\<close> before \<open>y\<close>.
\<close>

theorem queued_order_preserved:
  assumes chain: "is_chain h (p # anc)" and dist: "distinct (p # anc)"
    and x: "x < length h" "queued (h ! x) = None" "x \<notin> set (p # anc)"
    and y: "y < length h" "queued (h ! y) = None" "y \<notin> set (p # anc)"
    and xy: "x \<noteq> y" and fresh: "y \<notin> set (args_queue (h ! p))"
  shows "\<exists>h1 h2 h3. queue_converter h p (Some (Conv x)) = Inr h1
      \<and> queue_converter h1 p (Some (Conv y)) = Inr h2
      \<and> args_queue (h2 ! p) = args_queue (h ! p) @ [x, y]
      \<and> args_converters (h2 ! p) = args_converters (h ! p)
      \<and> unqueue h2 y None = Inr h3
      \<and> args_converters (h3 ! p)
          = args_converters (h ! p) @ map Conv (args_queue (h ! p) @ [x, y])
      \<and> args_queue (h3 ! p) = []"
proof -
  from chain have p: "p < length h" by (cases anc) auto
  from x(3) y(3) have px: "p \<noteq> x" and py: "p \<noteq> y" by auto
  define hx where "hx = h[x := (h ! x)\<lparr>queued := Some p\<rparr>]"
  define h1 where "h1 = hx[p := (hx ! p)\<lparr>args_queue := args_queue (hx ! p) @ [x]\<rparr>]"
  define hy where "hy = h1[y := (h1 ! y)\<lparr>queued := Some p\<rparr>]"
  define h2 where "h2 = hy[p := (hy ! p)\<lparr>args_queue := args_queue (hy ! p) @ [y]\<rparr>]"
  have q1: "queue_converter h p (Some (Conv x)) = Inr h1"
    using p x(1,2) by (simp add: queue_converter_def h1_def hx_def Let_def)
  have l1: "length h1 = length h" by (simp add: h1_def hx_def)
  have y1: "queued (h1 ! y) = None"
    using y(1,2) xy py p by (simp add: h1_def hx_def)
  have q2: "queue_converter h1 p (Some (Conv y)) = Inr h2"
    using p y(1) l1 y1 by (simp add: queue_converter_def h2_def hy_def Let_def)
  have l2: "length h2 = length h" by (simp add: h2_def hy_def l1)
  have aq2: "args_queue (h2 ! p) = args_queue (h ! p) @ [x, y]"
    using p px py x(1) y(1) by (simp add: h2_def hy_def h1_def hx_def)
  have ac2: "args_converters (h2 ! p) = args_converters (h ! p)"
    using p px py x(1) y(1) by (simp add: h2_def hy_def h1_def hx_def)
  have qy2: "queued (h2 ! y) = Some p"
    using p py y(1) by (simp add: h2_def hy_def h1_def hx_def)
  have same: "\<forall>a\<in>set (p # anc). queued (h2 ! a) = queued (h ! a)"
  proof
    fix a assume a: "a \<in> set (p # anc)"
    with x(3) y(3) have "a \<noteq> x" "a \<noteq> y" by auto
    with p x(1) y(1) show "queued (h2 ! a) = queued (h ! a)"
      by (cases "a = p") (simp_all add: h2_def hy_def h1_def hx_def)
  qed
  have chain2: "is_chain h2 (p # anc)"
    using is_chain_cong [OF l2 same] chain by simp
  have "length (p # anc) \<le> length h"
    using distinct_bounded_length [OF dist] is_chain_bound [OF chain] by blast
  then have len: "length (p # anc) \<le> length h2" by (simp add: l2)
  from unqueue_calls_chain [OF chain2 dist len, of "Some y"] obtain h' where
    run: "unqueue_calls (length h2) h2 p (Some y) = Inr h'" and l': "length h' = length h2"
    and aq': "args_queue (h' ! p) = args_queue (flush_queue h2 p (Some y) ! p)"
    and ac': "args_converters (h' ! p) = args_converters (flush_queue h2 p (Some y) ! p)"
    by blast
  have p2: "p < length h2" using p l2 by simp
  have fl: "flush_until y (args_queue (h ! p) @ [x, y]) = (args_queue (h ! p) @ [x, y], [])"
    using flush_until_last [of y "args_queue (h ! p) @ [x]"] fresh xy by simp
  have aqf: "args_queue (flush_queue h2 p (Some y) ! p) = []"
    using flush_queue_self(1) [OF p2, of "Some y"] aq2 fl by simp
  have acf: "args_converters (flush_queue h2 p (Some y) ! p)
               = args_converters (h ! p) @ map Conv (args_queue (h ! p) @ [x, y])"
    using flush_queue_self(2) [OF p2, of "Some y"] aq2 ac2 fl by simp
  define h3 where "h3 = h'[y := (h' ! y)\<lparr>queued := None\<rparr>]"
  have u: "unqueue h2 y None = Inr h3"
    using run y(1) l2 qy2 by (simp add: unqueue_def h3_def flush_queue_def)
  have p3: "h3 ! p = h' ! p"
    using py by (simp add: h3_def)
  show ?thesis
    using q1 q2 aq2 ac2 u p3 aq' ac' aqf acf by simp
qed

theorem queued_order_preserved_witness:
  "is_chain heap4 (1 # [0]) \<and> distinct ((1::nat) # [0])
   \<and> 2 < length heap4 \<and> queued (heap4 ! 2) = None \<and> 2 \<notin> set ((1::nat) # [0])
   \<and> 3 < length heap4 \<and> queued (heap4 ! 3) = None \<and> 3 \<notin> set ((1::nat) # [0])
   \<and> (2::nat) \<noteq> 3 \<and> 3 \<notin> set (args_queue (heap4 ! 1))
   \<and> (\<exists>h1 h2 h3. queue_converter heap4 1 (Some (Conv 2)) = Inr h1
      \<and> queue_converter h1 1 (Some (Conv 3)) = Inr h2
      \<and> args_queue (h2 ! 1) = args_queue (heap4 ! 1) @ [2, 3]
      \<and> args_converters (h2 ! 1) = args_converters (heap4 ! 1)
      \<and> unqueue h2 3 None = Inr h3
      \<and> args_converters (h3 ! 1)
          = args_converters (heap4 ! 1) @ map Conv (args_queue (heap4 ! 1) @ [2, 3])
      \<and> args_queue (h3 ! 1) = [])"
proof -
  have c: "is_chain heap4 (1 # [0])" by (simp add: heap4_def new_converter_def)
  have d: "distinct ((1::nat) # [0])" by simp
  have x1: "2 < length heap4" by (simp add: heap4_def)
  have x2: "queued (heap4 ! 2) = None" by (simp add: heap4_def new_converter_def)
  have x3: "2 \<notin> set ((1::nat) # [0])" by simp
  have y1: "3 < length heap4" by (simp add: heap4_def)
  have y2: "queued (heap4 ! 3) = None" by (simp add: heap4_def new_converter_def)
  have y3: "3 \<notin> set ((1::nat) # [0])" by simp
  have xy: "(2::nat) \<noteq> 3" by simp
  have f: "3 \<notin> set (args_queue (heap4 ! 1))" by (simp add: heap4_def new_converter_def)
  from queued_order_preserved [OF c d x1 x2 x3 y1 y2 y3 xy f] c d x1 x2 x3 y1 y2 y3 xy f
  show ?thesis by simp
qed

lemma promotion_example:
  "map_sum id (map (\<lambda>c. (c_name c, queued c, args_queue c, args_converters c)))
     (case queue_converter heap4 1 (Some (Conv 2)) of Inl e \<Rightarrow> Inl e
      | Inr h1 \<Rightarrow> (case queue_converter h1 1 (Some (Conv 3)) of Inl e \<Rightarrow> Inl e
          | Inr h2 \<Rightarrow> unqueue h2 3 None))
   = Inr [(''cmd'', None, [], [Conv 1]),
          (''p'', None, [], [Conv 2, Conv 3]),
          (''x'', None, [], []),
          (''y'', None, [], [])]"
  by code_simp

subsection \<open>The interpreter: what instructions do not look at\<close>

text \<open>
  Executing instructions reads the command line only to ask whether it is empty, and
  never changes it: part one of the loop commutes with replacing a non-empty command
  line by another non-empty one.
\<close>

lemma dict_of_argi [simp]: "dict_of (s\<lparr>argi := t\<rparr>) = dict_of s"
  by (rule ext) (simp add: dict_of_def)

lemma fetch_argi:
  "fetch fs (s\<lparr>argi := t\<rparr>) = map_sum id (\<lambda>(s', op). (s'\<lparr>argi := t\<rparr>, op)) (fetch fs s)"
proof (induction fs arbitrary: s)
  case Nil
  show ?case by (simp split: option.splits)
next
  case (Cons f fs)
  show ?case
  proof (cases "ip s")
    case None
    then show ?thesis by simp
  next
    case (Some pi)
    obtain p i where pi: "pi = (p, i)" by (cases pi)
    have r: "restore f (s\<lparr>argi := t, call_stack := fs\<rparr>) = (restore f (s\<lparr>call_stack := fs\<rparr>))\<lparr>argi := t\<rparr>"
      by (simp add: restore_def)
    show ?thesis
      using Some pi Cons.IH [of "restore f (s\<lparr>call_stack := fs\<rparr>)"] r by simp
  qed
qed

lemma next_op_argi:
  "next_op (s\<lparr>argi := t\<rparr>) = map_sum id (\<lambda>(s', op). (s'\<lparr>argi := t\<rparr>, op)) (next_op s)"
  by (simp add: next_op_def fetch_argi)

lemma exec_op_argi:
  assumes "argi s \<noteq> []" and "t \<noteq> []"
  shows "exec_op (s\<lparr>argi := t\<rparr>) op
           = map_sum id (\<lambda>(s', b). (s'\<lparr>argi := t\<rparr>, b)) (exec_op s op)"
  using assms
  by (cases op)
    (auto simp: exec_create_converter_def Let_def setitem_def exec_append_to_args_def
      exec_add_to_kwargs_def exec_set_group_def exec_flush_multioption_def jump_def
      split: option.splits sum.splits pyvalue.splits if_splits)

lemma fetch_keeps_argi:
  "fetch fs s = Inr (s', op) \<Longrightarrow> argi s' = argi s"
proof (induction fs arbitrary: s)
  case Nil
  then show ?case by (auto split: option.splits if_splits)
next
  case (Cons f fs)
  show ?case
  proof (cases "ip s")
    case None
    with Cons.prems show ?thesis by simp
  next
    case (Some pi)
    obtain p i where pi: "pi = (p, i)" by (cases pi)
    show ?thesis
    proof (cases "i < length (opcodes p)")
      case True
      with Cons.prems Some pi show ?thesis by auto
    next
      case False
      with Cons.prems Some pi
      have "fetch fs (restore f (s\<lparr>call_stack := fs\<rparr>)) = Inr (s', op)" by simp
      from Cons.IH [OF this] show ?thesis by (simp add: restore_def)
    qed
  qed
qed

lemma exec_op_keeps_argi:
  "exec_op s op = Inr (s', b) \<Longrightarrow> argi s' = argi s"
  by (cases op)
    (auto simp: exec_create_converter_def Let_def setitem_def exec_append_to_args_def
      exec_add_to_kwargs_def exec_set_group_def exec_flush_multioption_def jump_def abort_def
      split: option.splits sum.splits pyvalue.splits if_splits)

lemma phase1_keeps_argi:
  "phase1 n s = Some (Inr (s', op)) \<Longrightarrow> argi s' = argi s"
proof (induction n arbitrary: s)
  case 0
  then show ?case by simp
next
  case (Suc n)
  show ?case
  proof (cases "next_op s")
    case (Inl e)
    with Suc.prems show ?thesis by simp
  next
    case (Inr r)
    obtain s1 o1 where r: "r = (s1, o1)" by (cases r)
    have a1: "argi s1 = argi s"
      using Inr r fetch_keeps_argi [of "call_stack s" s s1 o1] by (simp add: next_op_def)
    show ?thesis
    proof (cases o1)
      case None
      with Suc.prems Inr r a1 show ?thesis by simp
    next
      case (Some op1)
      show ?thesis
      proof (cases "exec_op s1 op1")
        case (Inl e)
        with Suc.prems \<open>next_op s = Inr r\<close> r Some show ?thesis by simp
      next
        case (Inr r2)
        obtain s2 brk where r2: "r2 = (s2, brk)" by (cases r2)
        have a2: "argi s2 = argi s1"
          using Inr r2 exec_op_keeps_argi by simp
        show ?thesis
        proof (cases brk)
          case True
          with Suc.prems \<open>next_op s = Inr r\<close> r Some Inr r2 a1 a2 show ?thesis by simp
        next
          case False
          with Suc.prems \<open>next_op s = Inr r\<close> r Some Inr r2
          have "phase1 n s2 = Some (Inr (s', op))" by simp
          from Suc.IH [OF this] a1 a2 show ?thesis by simp
        qed
      qed
    qed
  qed
qed

lemma phase1_argi:
  assumes "argi s \<noteq> []" and "t \<noteq> []"
  shows "phase1 n (s\<lparr>argi := t\<rparr>)
           = map_option (map_sum id (\<lambda>(s', op). (s'\<lparr>argi := t\<rparr>, op))) (phase1 n s)"
  using assms
proof (induction n arbitrary: s)
  case 0
  show ?case by simp
next
  case (Suc n)
  show ?case
  proof (cases "next_op s")
    case (Inl e)
    then show ?thesis by (simp add: next_op_argi)
  next
    case (Inr r)
    obtain s1 o1 where r: "r = (s1, o1)" by (cases r)
    have a1: "argi s1 = argi s"
      using Inr r fetch_keeps_argi [of "call_stack s" s s1 o1] by (simp add: next_op_def)
    show ?thesis
    proof (cases o1)
      case None
      with Inr r show ?thesis by (simp add: next_op_argi)
    next
      case (Some op1)
      have ne1: "argi s1 \<noteq> []" using a1 Suc.prems(1) by simp
      show ?thesis
      proof (cases "exec_op s1 op1")
        case (Inl e)
        with \<open>next_op s = Inr r\<close> r Some show ?thesis
          by (simp add: next_op_argi exec_op_argi [OF ne1 Suc.prems(2)])
      next
        case (Inr r2)
        obtain s2 brk where r2: "r2 = (s2, brk)" by (cases r2)
        have a2: "argi s2 \<noteq> []"
          using Inr r2 exec_op_keeps_argi [of s1 op1 s2 brk] ne1 by simp
        show ?thesis
          using \<open>next_op s = Inr r\<close> r Some Inr r2 Suc.IH [OF a2 Suc.prems(2)]
          by (simp add: next_op_argi exec_op_argi [OF ne1 Suc.prems(2)])
      qed
    qed
  qed
qed

subsection \<open>The interpreter: parts of the state that a step leaves alone\<close>

text \<open>
  The lemmas are stated for any projection \<open>\<phi>\<close> of the state that the basic updates of
  a step do not affect.
\<close>

lemma fetch_field:
  assumes "\<And>f s. \<phi> (restore f s) = \<phi> s" and "\<And>s x. \<phi> (s\<lparr>ip := x\<rparr>) = \<phi> s"
    and "\<And>s x. \<phi> (s\<lparr>call_stack := x\<rparr>) = \<phi> s"
    and "fetch fs s = Inr (s', op)"
  shows "\<phi> s' = \<phi> s"
  using assms(4)
proof (induction fs arbitrary: s)
  case Nil
  then show ?case by (auto simp: assms(2) split: option.splits if_splits)
next
  case (Cons f fs)
  show ?case
  proof (cases "ip s")
    case None
    with Cons.prems show ?thesis by simp
  next
    case (Some pi)
    obtain p i where pi: "pi = (p, i)" by (cases pi)
    show ?thesis
    proof (cases "i < length (opcodes p)")
      case True
      with Cons.prems Some pi show ?thesis by (auto simp: assms(2))
    next
      case False
      with Cons.prems Some pi
      have "fetch fs (restore f (s\<lparr>call_stack := fs\<rparr>)) = Inr (s', op)" by simp
      from Cons.IH [OF this] show ?thesis by (simp add: assms(1,3))
    qed
  qed
qed

lemma phase1_field:
  assumes f: "\<And>fs s s' op. fetch fs s = Inr (s', op) \<Longrightarrow> \<phi> s' = \<phi> s"
    and e: "\<And>s op s' b. exec_op s op = Inr (s', b) \<Longrightarrow> \<phi> s' = \<phi> s"
    and "phase1 n s = Some (Inr (s', op))"
  shows "\<phi> s' = \<phi> s"
  using assms(3)
proof (induction n arbitrary: s)
  case 0
  then show ?case by simp
next
  case (Suc n)
  show ?case
  proof (cases "next_op s")
    case (Inl e)
    with Suc.prems show ?thesis by simp
  next
    case (Inr r)
    obtain s1 o1 where r: "r = (s1, o1)" by (cases r)
    have a1: "\<phi> s1 = \<phi> s"
      using Inr r f [of "call_stack s" s s1 o1] by (simp add: next_op_def)
    show ?thesis
    proof (cases o1)
      case None
      with Suc.prems Inr r a1 show ?thesis by simp
    next
      case (Some op1)
      show ?thesis
      proof (cases "exec_op s1 op1")
        case (Inl e)
        with Suc.prems \<open>next_op s = Inr r\<close> r Some show ?thesis by simp
      next
        case (Inr r2)
        obtain s2 brk where r2: "r2 = (s2, brk)" by (cases r2)
        have a2: "\<phi> s2 = \<phi> s1"
          using Inr r2 e by simp
        show ?thesis
        proof (cases brk)
          case True
          with Suc.prems \<open>next_op s = Inr r\<close> r Some Inr r2 a1 a2 show ?thesis by simp
        next
          case False
          with Suc.prems \<open>next_op s = Inr r\<close> r Some Inr r2
          have "phase1 n s2 = Some (Inr (s', op))" by simp
          from Suc.IH [OF this] a1 a2 show ?thesis by simp
        qed
      qed
    qed
  qed
qed

lemma exec_op_flags:
  assumes "exec_op s op = Inr (s', b)"
  shows "force_positional s' = force_positional s
       \<and> root_force_positional s' = root_force_positional s"
  using assms
  by (cases op)
    (auto simp: exec_create_converter_def Let_def setitem_def exec_append_to_args_def
      exec_add_to_kwargs_def exec_set_group_def exec_flush_multioption_def jump_def abort_def
      split: option.splits sum.splits pyvalue.splits if_splits)

lemma fetch_flags:
  assumes "fetch fs s = Inr (s', op)"
  shows "force_positional s' = force_positional s
       \<and> root_force_positional s' = root_force_positional s"
proof -
  have a: "force_positional s' = force_positional s"
    by (rule fetch_field [where \<phi> = force_positional, OF _ _ _ assms])
      (simp_all add: restore_def)
  have b: "root_force_positional s' = root_force_positional s"
    by (rule fetch_field [where \<phi> = root_force_positional, OF _ _ _ assms])
      (simp_all add: restore_def)
  from a b show ?thesis by simp
qed

lemma phase1_flags:
  assumes "phase1 n s = Some (Inr (s', op))"
  shows "force_positional s' = force_positional s
       \<and> root_force_positional s' = root_force_positional s"
proof -
  have a: "force_positional s' = force_positional s"
    by (rule phase1_field [where \<phi> = force_positional, OF _ _ assms])
      (simp_all add: exec_op_flags fetch_flags)
  have b: "root_force_positional s' = root_force_positional s"
    by (rule phase1_field [where \<phi> = root_force_positional, OF _ _ assms])
      (simp_all add: exec_op_flags fetch_flags)
  from a b show ?thesis by simp
qed

lemma options_pop_flags:
  assumes "options_pop s = Inr s'"
  shows "force_positional s' = force_positional s
       \<and> root_force_positional s' = root_force_positional s"
  using assms by (auto simp: options_pop_def split: if_splits list.splits)

lemma pop_times_flags:
  assumes "pop_times n s = Inr s'"
  shows "force_positional s' = force_positional s
       \<and> root_force_positional s' = root_force_positional s"
  using assms
proof (induction n arbitrary: s)
  case 0
  then show ?case by simp
next
  case (Suc n)
  then obtain s1 where p: "options_pop s = Inr s1" and r: "pop_times n s1 = Inr s'"
    by (auto split: sum.splits)
  from Suc.IH [OF r] options_pop_flags [OF p] show ?case by simp
qed

lemma pop_while_flags:
  assumes "pop_while ts d s = Inr s'"
  shows "force_positional s' = force_positional s
       \<and> root_force_positional s' = root_force_positional s"
  using assms
proof (induction ts arbitrary: s)
  case Nil
  then show ?case by simp
next
  case (Cons t ts)
  show ?case
  proof (cases "dict_eq (dict_of s (opt_token s)) d")
    case True
    with Cons.prems show ?thesis by simp
  next
    case False
    with Cons.prems obtain s1 where p: "options_pop s = Inr s1"
      and r: "pop_while ts d s1 = Inr s'"
      by (auto split: sum.splits)
    from Cons.IH [OF r] options_pop_flags [OF p] show ?thesis by simp
  qed
qed

lemma pop_until_token_flags:
  assumes "pop_until_token token s = Inr s'"
  shows "force_positional s' = force_positional s
       \<and> root_force_positional s' = root_force_positional s"
  using assms pop_while_flags
  by (auto simp: pop_until_token_def split: if_splits option.splits sum.splits)

lemma consume_positional_flags:
  assumes "consume_positional s op a = Inr out"
  shows "force_positional (outcome_state out) = force_positional s
       \<and> root_force_positional (outcome_state out) = root_force_positional s"
  using assms pop_times_flags
  by (auto simp: consume_positional_def unmap_all_child_options_def Let_def
      split: option.splits sum.splits if_splits)

lemma enter_option_flags:
  assumes "enter_option s op opt p g mx token split_value = Inr s'"
  shows "force_positional s' = force_positional s
       \<and> root_force_positional s' = root_force_positional s"
proof -
  from assms obtain lg d s2 s3 where
    s2: "(case op of None \<Rightarrow> Inr (s\<lparr>gheap := (gheap s)[lg := (gheap s ! lg)\<lparr>laden := True\<rparr>]\<rparr>)
          | Some pending \<Rightarrow> rewind_one_instruction
              (s\<lparr>gheap := (gheap s)[lg := (gheap s ! lg)\<lparr>laden := True\<rparr>]\<rparr>)) = Inr s2"
    and s3: "pop_until_token token s2 = Inr s3"
    and s': "s' = call p (options_push s3)
             \<or> (\<exists>v. s' = call p ((options_push s3)\<lparr>argi := v # argi (options_push s3)\<rparr>))"
    by (auto simp: enter_option_def Let_def split: option.splits sum.splits if_splits)
  from s2 have f2: "force_positional s2 = force_positional s
       \<and> root_force_positional s2 = root_force_positional s"
    by (auto simp: rewind_one_instruction_def split: option.splits if_splits)
  from s' have f': "force_positional s' = force_positional s3
       \<and> root_force_positional s' = root_force_positional s3"
    by (auto simp: call_def options_push_def options_reset_def)
  from f2 f' pop_until_token_flags [OF s3] show ?thesis by simp
qed

lemma invoke_option_flags:
  assumes "invoke_option s op a = Inr out"
  shows "force_positional (outcome_state out) = force_positional s
       \<and> root_force_positional (outcome_state out) = root_force_positional s"
proof (cases "startswith a ''--''")
  case True
  with assms obtain a' sv p g mn mx token s' where
    "enter_option (s\<lparr>program_var := Some p\<rparr>) op a' p g mx token sv = Inr s'" and "out = Running s'"
    by (auto simp: invoke_option_def split: prod.splits sum.splits)
  with enter_option_flags show ?thesis by fastforce
next
  case False
  with assms obtain a' sv p g mn mx token s1 sv' s' where
    h: "handle_remainder (s\<lparr>program_var := Some p\<rparr>) [a' ! 1] (drop 2 a') mn mx sv = Inr (s1, sv')"
    and e: "enter_option s1 op [a' ! 1] p g mx token sv' = Inr s'" and o: "out = Running s'"
    by (auto simp: invoke_option_def split: prod.splits sum.splits if_splits)
  from h have "force_positional s1 = force_positional s
       \<and> root_force_positional s1 = root_force_positional s"
    by (auto simp: handle_remainder_def split: if_splits option.splits)
  with enter_option_flags [OF e] o show ?thesis by simp
qed

lemma phase2_flags:
  assumes "phase2 s op t = Inr out"
  shows "(force_positional s \<longrightarrow> force_positional (outcome_state out))
       \<and> (root_force_positional s \<longrightarrow> root_force_positional (outcome_state out))"
  using assms
proof (induction s op t rule: phase2.induct)
  case (1 s op)
  then show ?case by auto
next
  case (2 s op a rest)
  show ?case
  proof (cases "is_positional_argument s op a")
    case True
    with "2.prems" have "consume_positional (s\<lparr>argi := rest\<rparr>) op a = Inr out" by simp
    from consume_positional_flags [OF this] show ?thesis by simp
  next
    case False
    note np = this
    show ?thesis
    proof (cases "a = ''--''")
      case True
      with np "2.prems" have oso: "option_space_oparg s" and nf: "\<not> force_positional s"
        and r: "phase2 (s\<lparr>argi := rest, force_positional := True,
                         root_force_positional := True\<rparr>) op rest = Inr out"
        by (auto split: if_splits)
      from "2.IH" [OF np _ True nf r] oso show ?thesis by simp
    next
      case False
      with np "2.prems" have "invoke_option (s\<lparr>argi := rest\<rparr>) op a = Inr out"
        by (auto split: if_splits)
      from invoke_option_flags [OF this] show ?thesis by simp
    qed
  qed
qed

lemma unwind_frames_flags:
  "force_positional (unwind_frames fs s) = force_positional s
   \<and> root_force_positional (unwind_frames fs s) = root_force_positional s"
  by (induction fs arbitrary: s) (auto simp: restore_def)

lemma end_of_parse_flags:
  assumes "end_of_parse s = Inr (r, s')"
  shows "force_positional s' = force_positional s
       \<and> root_force_positional s' = root_force_positional s"
  using assms unwind_frames_flags [of "call_stack s" s]
  by (auto simp: end_of_parse_def Let_def unwind_def abort_def
      split: option.splits if_splits sum.splits)

lemma run_flags:
  assumes "run n s = Some (Inr (r, s'))"
  shows "(force_positional s \<longrightarrow> force_positional s')
       \<and> (root_force_positional s \<longrightarrow> root_force_positional s')"
  using assms
proof (induction n arbitrary: s)
  case 0
  then show ?case by simp
next
  case (Suc n)
  show ?case
  proof (cases "running s \<or> argi s \<noteq> []")
    case False
    with Suc.prems have "end_of_parse s = Inr (r, s')" by simp
    from end_of_parse_flags [OF this] show ?thesis by simp
  next
    case True
    with Suc.prems obtain s1 op where p1: "phase1 n s = Some (Inr (s1, op))"
      by (auto split: option.splits sum.splits)
    with True Suc.prems obtain out where p2: "phase2 s1 op (argi s1) = Inr out"
      by (auto split: sum.splits)
    note f1 = phase1_flags [OF p1]
    note f2 = phase2_flags [OF p2]
    show ?thesis
    proof (cases out)
      case (Returned r2 s2)
      with True Suc.prems p1 p2 have "s' = s2" by simp
      with f1 f2 Returned show ?thesis by simp
    next
      case (Running s2)
      with True Suc.prems p1 p2 have "run n s2 = Some (Inr (r, s'))" by simp
      from Suc.IH [OF this] f1 f2 Running show ?thesis by simp
    qed
  qed
qed

subsection \<open>A positional argument that nobody is waiting for\<close>

text \<open>
  Claim C8. When part two of the loop meets a positional argument while no
  \<^verbatim>\<open>consume_argument\<close> is pending (the program has finished, \<^verbatim>\<open>op\<close> is \<^verbatim>\<open>None\<close>), it raises
  no error: it returns the root converter (the converter registered under
  \<^verbatim>\<open>command_converter_key\<close>) and leaves the state as it was, with the argument still the
  first of the command line. So \<^verbatim>\<open>__call__\<close> returns in that pass, with that state.
\<close>

lemma root_converter_argi [simp]: "root_converter (s\<lparr>argi := t\<rparr>) = root_converter s"
  by (simp add: root_converter_def split: option.splits)

theorem positional_without_pending:
  assumes "is_positional_argument s None a" and "root_converter s = Inr r"
  shows "phase2 s None (a # rest) = Inr (Returned r (s\<lparr>argi := a # rest\<rparr>))
       \<and> (\<forall>n s0. (running s0 \<or> argi s0 \<noteq> []) \<and> phase1 n s0 = Some (Inr (s, None))
                  \<and> argi s = a # rest
             \<longrightarrow> run (Suc n) s0 = Some (Inr (r, s)))"
proof
  show p2: "phase2 s None (a # rest) = Inr (Returned r (s\<lparr>argi := a # rest\<rparr>))"
    using assms by (simp add: consume_positional_def)
  show "\<forall>n s0. (running s0 \<or> argi s0 \<noteq> []) \<and> phase1 n s0 = Some (Inr (s, None))
                  \<and> argi s = a # rest
             \<longrightarrow> run (Suc n) s0 = Some (Inr (r, s))"
  proof (intro allI impI)
    fix n s0
    assume h: "(running s0 \<or> argi s0 \<noteq> []) \<and> phase1 n s0 = Some (Inr (s, None))
                  \<and> argi s = a # rest"
    then have "s\<lparr>argi := a # rest\<rparr> = s" by simp
    with h p2 show "run (Suc n) s0 = Some (Inr (r, s))" by simp
  qed
qed

theorem positional_without_pending_witness:
  "is_positional_argument (fst (after_part_one prog_tool [''file'', ''more''] False)) None ''file''
   \<and> root_converter (fst (after_part_one prog_tool [''file'', ''more''] False)) = Inr 0
   \<and> phase2 (fst (after_part_one prog_tool [''file'', ''more''] False)) None (''file'' # [''more''])
       = Inr (Returned 0 ((fst (after_part_one prog_tool [''file'', ''more''] False))
                \<lparr>argi := ''file'' # [''more'']\<rparr>))
   \<and> run (Suc 20) (init_state prog_tool [''file'', ''more''] False True True True)
       = Some (Inr (0, fst (after_part_one prog_tool [''file'', ''more''] False)))"
proof -
  have h1: "is_positional_argument (fst (after_part_one prog_tool [''file'', ''more''] False))
              None ''file''"
    by code_simp
  have h2: "root_converter (fst (after_part_one prog_tool [''file'', ''more''] False)) = Inr 0"
    by code_simp
  have h3: "(running (init_state prog_tool [''file'', ''more''] False True True True)
             \<or> argi (init_state prog_tool [''file'', ''more''] False True True True) \<noteq> [])"
    by (simp add: init_state_def)
  have h4: "phase1 20 (init_state prog_tool [''file'', ''more''] False True True True)
              = Some (Inr (fst (after_part_one prog_tool [''file'', ''more''] False), None))"
    by code_simp
  have h5: "argi (fst (after_part_one prog_tool [''file'', ''more''] False)) = ''file'' # [''more'']"
    by code_simp
  from positional_without_pending [OF h1 h2, of "[''more'']"] h1 h2 h3 h4 h5
  show ?thesis by blast
qed

lemma exec_op_root_converter:
  assumes "exec_op s op = Inr (s', b)" and "root_converter s = Inr r"
  shows "\<exists>r'. root_converter s' = Inr r'"
  using assms
  by (cases op)
    (auto simp: exec_create_converter_def Let_def setitem_def exec_append_to_args_def
      exec_add_to_kwargs_def exec_set_group_def exec_flush_multioption_def jump_def abort_def
      root_converter_def update_conv'
      split: option.splits sum.splits pyvalue.splits if_splits)

lemma create_command_converter_root:
  assumes "command_converter s = None"
  shows "root_converter (exec_create_converter prm c k True s) = Inr (length (heap s))"
  using assms
  by (simp add: exec_create_converter_def Let_def root_converter_def update_conv')

subsection \<open>The flag set by a double dash\<close>

text \<open>
  Claim C10. When part two of the loop meets \<^verbatim>\<open>--\<close> as an option (no forced positional
  mode yet, no oparg pending), it sets \<^verbatim>\<open>force_positional\<close> both in the local variable and
  on the shared root \<^verbatim>\<open>Appeal\<close> object and goes on with the rest of the command line; the
  pass ends with both flags set. No step of the interpreter resets the flag on the root
  object: a run that starts with the flag set and returns, returns with the flag set.
  An interpreter that starts with the root flag set copies it into its local flag, keeps
  it in every pass, and treats every command-line argument as positional.
\<close>

theorem double_dash_sets_root_flag:
  assumes "\<not> force_positional s" and "\<not> pending_oparg op" and "option_space_oparg s"
  shows "phase2 s op (''--'' # rest)
           = phase2 (s\<lparr>argi := rest, force_positional := True, root_force_positional := True\<rparr>)
               op rest
       \<and> (\<forall>out. phase2 s op (''--'' # rest) = Inr out
             \<longrightarrow> root_force_positional (outcome_state out) \<and> force_positional (outcome_state out))
       \<and> (\<forall>n s0 r s'. root_force_positional s0 \<and> run n s0 = Some (Inr (r, s'))
             \<longrightarrow> root_force_positional s')
       \<and> (\<forall>p args so eo co. force_positional (init_state p args True so eo co))
       \<and> (\<forall>s2 op2 a rest2. force_positional s2
             \<longrightarrow> phase2 s2 op2 (a # rest2) = consume_positional (s2\<lparr>argi := rest2\<rparr>) op2 a)
       \<and> (\<forall>n s2 s3 op3. force_positional s2 \<and> phase1 n s2 = Some (Inr (s3, op3))
             \<longrightarrow> force_positional s3)
       \<and> (\<forall>s2 op2 t out. force_positional s2 \<and> phase2 s2 op2 t = Inr out
             \<longrightarrow> force_positional (outcome_state out))"
proof (intro conjI allI impI)
  show a: "phase2 s op (''--'' # rest)
           = phase2 (s\<lparr>argi := rest, force_positional := True, root_force_positional := True\<rparr>)
               op rest"
    using assms by (simp add: is_positional_argument_def startswith_def)
  fix out assume o: "phase2 s op (''--'' # rest) = Inr out"
  from o a have
    "phase2 (s\<lparr>argi := rest, force_positional := True, root_force_positional := True\<rparr>) op rest
       = Inr out" by simp
  from phase2_flags [OF this]
  show "root_force_positional (outcome_state out)" and "force_positional (outcome_state out)"
    by simp_all
next
  fix n and s0 :: istate and r s'
  assume "root_force_positional s0 \<and> run n s0 = Some (Inr (r, s'))"
  then show "root_force_positional s'" using run_flags by blast
next
  fix p args so eo co show "force_positional (init_state p args True so eo co)"
    by (simp add: init_state_def)
next
  fix s2 :: istate and op2 a rest2 assume "force_positional s2"
  then show "phase2 s2 op2 (a # rest2) = consume_positional (s2\<lparr>argi := rest2\<rparr>) op2 a"
    by (simp add: is_positional_argument_def)
next
  fix n and s2 :: istate and s3 op3
  assume "force_positional s2 \<and> phase1 n s2 = Some (Inr (s3, op3))"
  then show "force_positional s3" using phase1_flags by blast
next
  fix s2 :: istate and op2 t out assume "force_positional s2 \<and> phase2 s2 op2 t = Inr out"
  then show "force_positional (outcome_state out)" using phase2_flags by blast
qed

lemma run_flags_double_dash:
  "result_of (run 30 (init_state prog_flags [''--'', ''-b''] False True True True))
     = Some (Inr (0, [(new_converter ConverterCls ''flags'' True)\<lparr>args_converters := [Str ''-b'']\<rparr>],
                  [], True))"
  by code_simp

lemma run_flags_later:
  "result_of (run 30 (init_state prog_flags [''-b''] True True True True))
     = Some (Inr (0, [(new_converter ConverterCls ''flags'' True)\<lparr>args_converters := [Str ''-b'']\<rparr>],
                  [], True))"
  by code_simp

theorem double_dash_sets_root_flag_witness:
  "\<not> force_positional (fst (after_part_one prog_flags [''--'', ''-b''] False))
   \<and> \<not> pending_oparg (snd (after_part_one prog_flags [''--'', ''-b''] False))
   \<and> option_space_oparg (fst (after_part_one prog_flags [''--'', ''-b''] False))
   \<and> phase2 (fst (after_part_one prog_flags [''--'', ''-b''] False))
        (snd (after_part_one prog_flags [''--'', ''-b''] False)) (''--'' # [''-b''])
       = phase2 ((fst (after_part_one prog_flags [''--'', ''-b''] False))
                   \<lparr>argi := [''-b''], force_positional := True, root_force_positional := True\<rparr>)
           (snd (after_part_one prog_flags [''--'', ''-b''] False)) [''-b'']
   \<and> force_positional (init_state prog_flags [''-b''] True True True True)
   \<and> result_of (run 30 (init_state prog_flags [''--'', ''-b''] False True True True))
       = Some (Inr (0, [(new_converter ConverterCls ''flags'' True)
                          \<lparr>args_converters := [Str ''-b'']\<rparr>], [], True))"
proof -
  have h1: "\<not> force_positional (fst (after_part_one prog_flags [''--'', ''-b''] False))"
    by code_simp
  have h2: "\<not> pending_oparg (snd (after_part_one prog_flags [''--'', ''-b''] False))"
    by code_simp
  have h3: "option_space_oparg (fst (after_part_one prog_flags [''--'', ''-b''] False))"
    by code_simp
  note t = double_dash_sets_root_flag [OF h1 h2 h3, of "[''-b'']"]
  have c1: "phase2 (fst (after_part_one prog_flags [''--'', ''-b''] False))
        (snd (after_part_one prog_flags [''--'', ''-b''] False)) (''--'' # [''-b''])
       = phase2 ((fst (after_part_one prog_flags [''--'', ''-b''] False))
                   \<lparr>argi := [''-b''], force_positional := True, root_force_positional := True\<rparr>)
           (snd (after_part_one prog_flags [''--'', ''-b''] False)) [''-b'']"
    by (rule conjunct1 [OF t])
  have c2: "force_positional (init_state prog_flags [''-b''] True True True True)"
    using t by simp
  show ?thesis
    using h1 h2 h3 c1 c2 run_flags_double_dash by simp
qed

subsection \<open>Short options with a value attached\<close>

lemma options_pop_field:
  assumes "\<And>s x y z. \<phi> (s\<lparr>opt_dicts := x, opt_token := y, opt_stack := z\<rparr>) = \<phi> s"
    and "options_pop s = Inr s'"
  shows "\<phi> s' = \<phi> s"
  using assms(2) by (auto simp: options_pop_def assms(1) split: if_splits list.splits)

lemma pop_times_field:
  assumes "\<And>s x y z. \<phi> (s\<lparr>opt_dicts := x, opt_token := y, opt_stack := z\<rparr>) = \<phi> s"
    and "pop_times n s = Inr s'"
  shows "\<phi> s' = \<phi> s"
  using assms(2)
proof (induction n arbitrary: s)
  case 0
  then show ?case by simp
next
  case (Suc n)
  then obtain s1 where p: "options_pop s = Inr s1" and r: "pop_times n s1 = Inr s'"
    by (auto split: sum.splits)
  from Suc.IH [OF r] options_pop_field [of \<phi>, OF assms(1) p] show ?case by simp
qed

lemma pop_while_field:
  assumes "\<And>s x y z. \<phi> (s\<lparr>opt_dicts := x, opt_token := y, opt_stack := z\<rparr>) = \<phi> s"
    and "pop_while ts d s = Inr s'"
  shows "\<phi> s' = \<phi> s"
  using assms(2)
proof (induction ts arbitrary: s)
  case Nil
  then show ?case by simp
next
  case (Cons t ts)
  show ?case
  proof (cases "dict_eq (dict_of s (opt_token s)) d")
    case True
    with Cons.prems show ?thesis by simp
  next
    case False
    with Cons.prems obtain s1 where p: "options_pop s = Inr s1"
      and r: "pop_while ts d s1 = Inr s'"
      by (auto split: sum.splits)
    from Cons.IH [OF r] options_pop_field [of \<phi>, OF assms(1) p] show ?thesis by simp
  qed
qed

lemma pop_until_token_field:
  assumes "\<And>s x y z. \<phi> (s\<lparr>opt_dicts := x, opt_token := y, opt_stack := z\<rparr>) = \<phi> s"
    and "pop_until_token token s = Inr s'"
  shows "\<phi> s' = \<phi> s"
  using assms(2) pop_while_field [of \<phi>, OF assms(1)]
  by (auto simp: pop_until_token_def split: if_splits option.splits sum.splits)

lemma partition_eq_none: "CHR ''='' \<notin> set a \<Longrightarrow> partition_eq a = (a, False, [])"
  by (induction a) auto

lemma find_option_argi [simp]: "find_option (s\<lparr>argi := t\<rparr>) opt ts = find_option s opt ts"
  by (induction ts) (auto split: option.splits)

lemma unknown_option_error_argi [simp]:
  "unknown_option_error (s\<lparr>argi := t\<rparr>) opt = unknown_option_error s opt"
  by (simp add: unknown_option_error_def split: sum.splits option.splits)

lemma getitem_argi [simp]: "getitem (s\<lparr>argi := t\<rparr>) opt = getitem s opt"
  by (simp add: getitem_def split: option.splits)

lemma dict_of_program_var [simp]: "dict_of (s\<lparr>program_var := t\<rparr>) = dict_of s"
  by (rule ext) (simp add: dict_of_def)

lemma options_pop_argi:
  "options_pop (s\<lparr>argi := t\<rparr>) = map_sum id (\<lambda>s'. s'\<lparr>argi := t\<rparr>) (options_pop s)"
  by (simp add: options_pop_def split: list.splits)

lemma pop_while_argi:
  "pop_while ts d (s\<lparr>argi := t\<rparr>) = map_sum id (\<lambda>s'. s'\<lparr>argi := t\<rparr>) (pop_while ts d s)"
proof (induction ts arbitrary: s)
  case Nil
  show ?case by simp
next
  case (Cons a ts)
  show ?case
  proof (cases "options_pop s")
    case (Inl e)
    then show ?thesis by (simp add: options_pop_argi)
  next
    case (Inr s1)
    then show ?thesis using Cons.IH [of s1] by (simp add: options_pop_argi)
  qed
qed

lemma pop_times_argi:
  "pop_times n (s\<lparr>argi := t\<rparr>) = map_sum id (\<lambda>s'. s'\<lparr>argi := t\<rparr>) (pop_times n s)"
proof (induction n arbitrary: s)
  case 0
  show ?case by simp
next
  case (Suc n)
  show ?case
  proof (cases "options_pop s")
    case (Inl e)
    then show ?thesis by (simp add: options_pop_argi)
  next
    case (Inr s1)
    then show ?thesis using Suc.IH [of s1] by (simp add: options_pop_argi)
  qed
qed

lemma pop_until_token_argi:
  "pop_until_token token (s\<lparr>argi := t\<rparr>)
     = map_sum id (\<lambda>s'. s'\<lparr>argi := t\<rparr>) (pop_until_token token s)"
proof (cases "opt_token s = token")
  case True
  then show ?thesis by (simp add: pop_until_token_def)
next
  case False
  show ?thesis
  proof (cases "map_of (opt_dicts s) token")
    case None
    with False show ?thesis by (simp add: pop_until_token_def)
  next
    case (Some d)
    show ?thesis
    proof (cases "pop_while (opt_stack s) d s")
      case (Inl e)
      with False Some show ?thesis by (simp add: pop_until_token_def pop_while_argi)
    next
      case (Inr s1)
      with False Some show ?thesis by (simp add: pop_until_token_def pop_while_argi)
    qed
  qed
qed

lemma rewind_argi:
  "rewind_one_instruction (s\<lparr>argi := t\<rparr>)
     = map_sum id (\<lambda>s'. s'\<lparr>argi := t\<rparr>) (rewind_one_instruction s)"
  by (simp add: rewind_one_instruction_def split: option.splits)

lemma call_push_argi:
  "call p (options_push (s\<lparr>argi := t\<rparr>)) = (call p (options_push s))\<lparr>argi := t\<rparr>"
  by (simp add: call_def options_push_def options_reset_def save_frame_def)

lemma enter_option_argi:
  "enter_option (s\<lparr>argi := t\<rparr>) op opt p g mx token None
     = map_sum id (\<lambda>s'. s'\<lparr>argi := t\<rparr>) (enter_option s op opt p g mx token None)"
proof (cases "map_of (id_to_group s) g")
  case None
  then show ?thesis by (simp add: enter_option_def)
next
  case (Some lg)
  show ?thesis
  proof (cases "denormalize_option opt")
    case (Inl e)
    with Some show ?thesis by (simp add: enter_option_def)
  next
    case (Inr d)
    let ?s1 = "s\<lparr>gheap := (gheap s)[lg := (gheap s ! lg)\<lparr>laden := True\<rparr>]\<rparr>"
    have e1: "s\<lparr>argi := t, gheap := (gheap s)[lg := (gheap s ! lg)\<lparr>laden := True\<rparr>]\<rparr>
                = ?s1\<lparr>argi := t\<rparr>" by simp
    show ?thesis
    proof (cases "case op of None \<Rightarrow> Inr ?s1 | Some pending \<Rightarrow> rewind_one_instruction ?s1")
      case (Inl e)
      with Some Inr show ?thesis
        by (cases op) (simp_all add: enter_option_def Let_def e1 rewind_argi)
    next
      case r: (Inr s2)
      then have r': "(case op of None \<Rightarrow> Inr (?s1\<lparr>argi := t\<rparr>)
                      | Some pending \<Rightarrow> rewind_one_instruction (?s1\<lparr>argi := t\<rparr>))
                       = Inr (s2\<lparr>argi := t\<rparr>)"
        by (cases op) (auto simp: rewind_argi)
      show ?thesis
      proof (cases "pop_until_token token s2")
        case (Inl e)
        with Some Inr r r' show ?thesis
          by (simp add: enter_option_def Let_def e1 pop_until_token_argi)
      next
        case s3: (Inr s3)
        with Some Inr r r' show ?thesis
          by (simp add: enter_option_def Let_def e1 pop_until_token_argi call_push_argi)
      qed
    qed
  qed
qed




lemma fused_value_runs:
  "result_of (run 30 (init_state prog_tool [''-fhi''] False True True True))
     = Some (Inr (0, [(new_converter ConverterCls ''tool'' True)
                        \<lparr>kwargs_converters := Some [(''f'', Some (Conv 1))]\<rparr>,
                      (new_converter ConverterCls ''f_opt'' True)
                        \<lparr>args_converters := [Str ''hi'']\<rparr>], [], False))
   \<and> result_of (run 30 (init_state prog_tool [''-f=hi''] False True True True))
     = Some (Inr (0, [(new_converter ConverterCls ''tool'' True)
                        \<lparr>kwargs_converters := Some [(''f'', Some (Conv 1))]\<rparr>,
                      (new_converter ConverterCls ''f_opt'' True)
                        \<lparr>args_converters := [Str ''hi'']\<rparr>], [], False))"
  by code_simp


subsection \<open>A child option presented after a positional argument\<close>













subsection \<open>Bundled short options\<close>

lemma no_value_program_opcodes:
  "no_value_program xs p = list_all (no_value_instr xs) (opcodes p)"
  by (cases p) simp

lemma no_value_state_argi [simp]: "no_value_state xs (s\<lparr>argi := t\<rparr>) = no_value_state xs s"
  by (simp add: no_value_state_def)

lemma no_value_state_program_var [simp]:
  "no_value_state xs (s\<lparr>program_var := t\<rparr>) = no_value_state xs s"
  by (simp add: no_value_state_def)

lemma list_all_update:
  "list_all P al \<Longrightarrow> P (k, v) \<Longrightarrow> list_all P (AList.update k v al)"
  by (induction al) auto

lemma list_all_delete: "list_all P al \<Longrightarrow> list_all P (AList.delete k al)"
  by (induction al) auto

lemma dict_of_no_value:
  "no_value_state xs s \<Longrightarrow> list_all (no_value_entry xs) (dict_of s t)"
proof (cases "map_of (opt_dicts s) t")
  case None
  then show ?thesis by (simp add: dict_of_def)
next
  case (Some d)
  then have "(t, d) \<in> set (opt_dicts s)" by (rule map_of_SomeD)
  moreover assume "no_value_state xs s"
  ultimately have "list_all (no_value_entry xs) d"
    by (auto simp: no_value_state_def list_all_iff)
  with Some show ?thesis by (simp add: dict_of_def)
qed

lemma setitem_no_value:
  assumes "no_value_state xs s" and "no_value_entry xs (opt, p, g)"
  shows "no_value_state xs (setitem opt (p, g) s)"
proof -
  have "list_all (no_value_entry xs) (AList.update opt (p, g) (dict_of s (opt_token s)))"
    using list_all_update [OF dict_of_no_value [OF assms(1)] assms(2)] .
  then have "list_all (\<lambda>d. list_all (no_value_entry xs) (snd d))
               (AList.update (opt_token s) (AList.update opt (p, g) (dict_of s (opt_token s)))
                  (opt_dicts s))"
    using assms(1) by (intro list_all_update) (simp_all add: no_value_state_def)
  with assms(1) show ?thesis
    by (simp add: no_value_state_def setitem_def)
qed

lemma fetch_no_value:
  assumes "no_value_state xs s" and "call_stack s = fs" and "fetch fs s = Inr (s', op)"
  shows "no_value_state xs s' \<and> (\<forall>i. op = Some i \<longrightarrow> no_value_instr xs i)"
  using assms
proof (induction fs arbitrary: s)
  case Nil
  then show ?case
    by (auto simp: no_value_state_def no_value_ip_def no_value_program_opcodes list_all_length
        split: option.splits if_splits)
next
  case (Cons f fs)
  show ?case
  proof (cases "ip s")
    case None
    with Cons.prems show ?thesis by simp
  next
    case (Some pi)
    obtain p i where pi: "pi = (p, i)" by (cases pi)
    show ?thesis
    proof (cases "i < length (opcodes p)")
      case True
      with Cons.prems Some pi show ?thesis
        by (auto simp: no_value_state_def no_value_ip_def no_value_program_opcodes
            list_all_length)
    next
      case False
      with Cons.prems Some pi
      have f: "fetch fs (restore f (s\<lparr>call_stack := fs\<rparr>)) = Inr (s', op)" by simp
      have a: "no_value_state xs (restore f (s\<lparr>call_stack := fs\<rparr>))"
        using Cons.prems(1,2) by (simp add: no_value_state_def restore_def)
      have b: "call_stack (restore f (s\<lparr>call_stack := fs\<rparr>)) = fs"
        by (simp add: restore_def)
      from Cons.IH [OF a b f] show ?thesis .
    qed
  qed
qed

lemma jump_no_value: "no_value_state xs s \<Longrightarrow> no_value_state xs (jump a s)"
proof (cases "ip s")
  case None
  assume "no_value_state xs s"
  with None show ?thesis by (simp add: jump_def)
next
  case (Some pi)
  obtain p i where pi: "pi = (p, i)" by (cases pi)
  assume a: "no_value_state xs s"
  with Some pi have "no_value_program xs p"
    by (simp add: no_value_state_def no_value_ip_def)
  then have "no_value_ip xs (Some (p, a))"
    by (simp add: no_value_ip_def)
  with a Some pi show ?thesis
    by (simp add: jump_def no_value_state_def)
qed

lemma exec_op_no_value:
  assumes "no_value_state xs s" and "no_value_instr xs op" and "exec_op s op = Inr (s', b)"
  shows "no_value_state xs s'"
proof (cases op)
  case (MapOption opt p cl prm k g)
  with assms(2) have "no_value_entry xs (opt, p, g)"
    by (simp add: no_value_entry_def)
  from setitem_no_value [OF assms(1) this] assms(3) MapOption show ?thesis by auto
next
  case (CreateConverter prm c k cmd)
  with assms show ?thesis
    by (auto simp: no_value_state_def exec_create_converter_def Let_def
        split: option.splits if_splits)
next
  case (AppendToArgs cl prm disc)
  with assms show ?thesis
    by (auto simp: no_value_state_def exec_append_to_args_def Let_def
        split: option.splits sum.splits pyvalue.splits if_splits)
next
  case (AddToKwargs n)
  with assms show ?thesis
    by (auto simp: no_value_state_def exec_add_to_kwargs_def Let_def
        split: option.splits sum.splits pyvalue.splits if_splits)
next
  case (SetGroup g opt rep)
  with assms show ?thesis
    by (auto simp: no_value_state_def exec_set_group_def Let_def split: option.splits)
next
  case FlushMultioption
  with assms show ?thesis
    by (auto simp: no_value_state_def exec_flush_multioption_def Let_def
        split: option.splits sum.splits pyvalue.splits if_splits)
next
  case (ConsumeArgument req oparg)
  with assms show ?thesis
    by (auto simp: no_value_state_def no_value_ip_def abort_def split: if_splits)
next
  case (Jump a)
  with assms(3) jump_no_value [OF assms(1)] show ?thesis by auto
next
  case (BranchOnO a)
  with assms(1,3) jump_no_value [OF assms(1)] show ?thesis by (auto split: if_splits)
qed (use assms in \<open>auto simp: no_value_state_def\<close>)

lemma pending_not_no_value: "pending_oparg (Some i) \<Longrightarrow> no_value_instr xs i \<Longrightarrow> False"
  by (cases i) auto

lemma exec_op_break:
  "exec_op s i = Inr (s', True) \<Longrightarrow> \<exists>req oparg. i = ConsumeArgument req oparg"
  by (cases i) (auto split: sum.splits)

lemma phase1_no_value:
  assumes "no_value_state xs s" and "phase1 n s = Some (Inr (s', op))"
  shows "no_value_state xs s' \<and> \<not> pending_oparg op"
  using assms
proof (induction n arbitrary: s)
  case 0
  then show ?case by simp
next
  case (Suc n)
  show ?case
  proof (cases "next_op s")
    case (Inl e)
    with Suc.prems show ?thesis by simp
  next
    case (Inr r)
    obtain s1 o1 where r: "r = (s1, o1)" by (cases r)
    have a1: "no_value_state xs s1 \<and> (\<forall>i. o1 = Some i \<longrightarrow> no_value_instr xs i)"
      using Inr r fetch_no_value [OF Suc.prems(1) refl, of s1 o1] by (simp add: next_op_def)
    show ?thesis
    proof (cases o1)
      case None
      with Suc.prems Inr r a1 show ?thesis by auto
    next
      case (Some op1)
      with a1 have i1: "no_value_instr xs op1" by simp
      show ?thesis
      proof (cases "exec_op s1 op1")
        case (Inl e)
        with Suc.prems \<open>next_op s = Inr r\<close> r Some show ?thesis by simp
      next
        case (Inr r2)
        obtain s2 brk where r2: "r2 = (s2, brk)" by (cases r2)
        have a2: "no_value_state xs s2"
          using exec_op_no_value [OF conjunct1 [OF a1] i1] Inr r2 by simp
        show ?thesis
        proof (cases brk)
          case True
          with Suc.prems \<open>next_op s = Inr r\<close> r Some Inr r2
          have e: "s' = s2" "op = Some op1" by simp_all
          from pending_not_no_value [OF _ i1] have "\<not> pending_oparg (Some op1)" by auto
          with e a2 show ?thesis by simp
        next
          case False
          with Suc.prems \<open>next_op s = Inr r\<close> r Some Inr r2
          have "phase1 n s2 = Some (Inr (s', op))" by simp
          from Suc.IH [OF a2 this] show ?thesis .
        qed
      qed
    qed
  qed
qed

lemma options_pop_dicts:
  "options_pop s = Inr s' \<Longrightarrow> set (opt_dicts s') \<subseteq> set (opt_dicts s)"
  by (auto simp: options_pop_def AList.delete_eq split: if_splits list.splits)

lemma pop_while_dicts:
  "pop_while ts d s = Inr s' \<Longrightarrow> set (opt_dicts s') \<subseteq> set (opt_dicts s)"
proof (induction ts arbitrary: s)
  case Nil
  then show ?case by simp
next
  case (Cons t ts)
  show ?case
  proof (cases "dict_eq (dict_of s (opt_token s)) d")
    case True
    with Cons.prems show ?thesis by simp
  next
    case False
    with Cons.prems obtain s1 where p: "options_pop s = Inr s1"
      and r: "pop_while ts d s1 = Inr s'"
      by (auto split: sum.splits)
    from Cons.IH [OF r] options_pop_dicts [OF p] show ?thesis by simp
  qed
qed

lemma pop_until_token_dicts:
  "pop_until_token token s = Inr s' \<Longrightarrow> set (opt_dicts s') \<subseteq> set (opt_dicts s)"
  using pop_while_dicts [of "opt_stack s" _ s s']
  by (auto simp: pop_until_token_def split: if_splits option.splits sum.splits)

lemma pop_until_token_no_value:
  assumes "no_value_state xs s" and "pop_until_token token s = Inr s'"
  shows "no_value_state xs s'"
proof -
  have a: "force_positional s' = force_positional s"
    by (rule pop_until_token_field [where \<phi> = force_positional, OF _ assms(2)]) simp
  have b: "ip s' = ip s"
    by (rule pop_until_token_field [where \<phi> = ip, OF _ assms(2)]) simp
  have c: "call_stack s' = call_stack s"
    by (rule pop_until_token_field [where \<phi> = call_stack, OF _ assms(2)]) simp
  from assms(1) pop_until_token_dicts [OF assms(2)]
  have "list_all (\<lambda>d. list_all (no_value_entry xs) (snd d)) (opt_dicts s')"
    by (auto simp: no_value_state_def list_all_iff)
  with assms(1) a b c show ?thesis
    by (simp add: no_value_state_def)
qed

lemma rewind_no_value:
  assumes "no_value_state xs s" and "rewind_one_instruction s = Inr s'"
  shows "no_value_state xs s'"
proof -
  from assms(2) obtain p i where i: "ip s = Some (p, i)" and s': "s' = s\<lparr>ip := Some (p, i - 1)\<rparr>"
    by (auto simp: rewind_one_instruction_def split: option.splits if_splits)
  from assms(1) i have "no_value_program xs p"
    by (simp add: no_value_state_def no_value_ip_def)
  then have "no_value_ip xs (Some (p, i - 1))"
    by (simp add: no_value_ip_def)
  with assms(1) s' show ?thesis
    by (simp add: no_value_state_def)
qed

lemma enter_option_no_value:
  assumes "no_value_state xs s" and "no_value_program xs p"
    and "enter_option s op opt p g mx token None = Inr s'"
  shows "no_value_state xs s'"
proof -
  from assms(3) obtain lg s2 s3 where
    s2: "(case op of None \<Rightarrow> Inr (s\<lparr>gheap := (gheap s)[lg := (gheap s ! lg)\<lparr>laden := True\<rparr>]\<rparr>)
          | Some pending \<Rightarrow> rewind_one_instruction
              (s\<lparr>gheap := (gheap s)[lg := (gheap s ! lg)\<lparr>laden := True\<rparr>]\<rparr>)) = Inr s2"
    and s3: "pop_until_token token s2 = Inr s3"
    and s': "s' = call p (options_push s3)"
    by (auto simp: enter_option_def Let_def split: option.splits sum.splits if_splits)
  have g: "no_value_state xs (s\<lparr>gheap := (gheap s)[lg := (gheap s ! lg)\<lparr>laden := True\<rparr>]\<rparr>)"
    using assms(1) by (simp add: no_value_state_def)
  have a2: "no_value_state xs s2"
  proof (cases op)
    case None
    with s2 g show ?thesis by auto
  next
    case (Some pending)
    with s2 rewind_no_value [OF g] show ?thesis by simp
  qed
  have a3: "no_value_state xs s3"
    using pop_until_token_no_value [OF a2 s3] .
  then have "list_all (\<lambda>d. list_all (no_value_entry xs) (snd d))
               (AList.update (opt_next s3) [] (opt_dicts s3))"
    by (intro list_all_update) (simp_all add: no_value_state_def)
  with a3 assms(2) s' show ?thesis
    by (simp add: no_value_state_def no_value_ip_def call_def options_push_def
        options_reset_def save_frame_def)
qed

lemma find_option_no_value:
  assumes "no_value_state xs s" and "find_option s opt ts = Some ((p, g), t)"
  shows "no_value_entry xs (opt, p, g)"
  using assms(2)
proof (induction ts)
  case Nil
  then show ?case by simp
next
  case (Cons t' ts)
  show ?case
  proof (cases "map_of (dict_of s t') opt")
    case None
    with Cons show ?thesis by simp
  next
    case (Some e)
    with Cons.prems have "e = (p, g)" by simp
    with Some have "(opt, p, g) \<in> set (dict_of s t')"
      by (auto dest: map_of_SomeD)
    with dict_of_no_value [OF assms(1), of t'] show ?thesis
      by (simp add: list_all_iff)
  qed
qed

lemma getitem_no_value:
  assumes "no_value_state xs s" and "x \<in> set xs"
    and "getitem s [x] = Inr (p, g, mn, mx, token)"
  shows "mx = Num 0 \<and> no_value_program xs p"
proof -
  from assms(3) have f: "find_option s [x] (opt_token s # opt_stack s) = Some ((p, g), token)"
    and m: "mx = maximum (total p)"
    by (auto simp: getitem_def split: option.splits)
  from find_option_no_value [OF assms(1) f] assms(2) m show ?thesis
    by (simp add: no_value_entry_def)
qed

lemma phase2_argi: "phase2 (s\<lparr>argi := u\<rparr>) op t = phase2 s op t"
  by (cases t) (simp_all add: is_positional_argument_def)

lemma short_option_step:
  assumes "\<not> force_positional s" and "\<not> pending_oparg op" and "option_space_oparg s"
    and "x \<noteq> CHR ''-''" and "x \<noteq> CHR ''=''"
  shows "phase2 s op ([CHR ''-'', x] # t) =
     (case getitem s [x] of
        Inl e \<Rightarrow> Inl e
      | Inr (p, g, mn, mx, token) \<Rightarrow>
          (case enter_option (s\<lparr>program_var := Some p\<rparr>) op [x] p g mx token None of
             Inl e \<Rightarrow> Inl e
           | Inr s' \<Rightarrow> Inr (Running (s'\<lparr>argi := t\<rparr>))))"
proof (cases "getitem s [x]")
  case (Inl e)
  with assms show ?thesis
    by (simp add: is_positional_argument_def startswith_def invoke_option_def split_token_def)
next
  case (Inr r)
  obtain p g mn mx token where r: "r = (p, g, mn, mx, token)" by (cases r)
  have sw: "s\<lparr>argi := t, program_var := Some p\<rparr> = s\<lparr>program_var := Some p, argi := t\<rparr>"
    by (cases s) simp
  have e: "enter_option (s\<lparr>argi := t, program_var := Some p\<rparr>) op [x] p g mx token None
             = map_sum id (\<lambda>s'. s'\<lparr>argi := t\<rparr>)
                 (enter_option (s\<lparr>program_var := Some p\<rparr>) op [x] p g mx token None)"
    unfolding sw
    using enter_option_argi [where s = "s\<lparr>program_var := Some p\<rparr>" and t = t] by simp
  have "phase2 s op ([CHR ''-'', x] # t)
          = (case enter_option (s\<lparr>argi := t, program_var := Some p\<rparr>) op [x] p g mx token None of
               Inl e \<Rightarrow> Inl e | Inr s' \<Rightarrow> Inr (Running s'))"
    using assms Inr r
    by (simp add: is_positional_argument_def startswith_def invoke_option_def split_token_def
        handle_remainder_def)
  with e Inr r show ?thesis
    by (cases "enter_option (s\<lparr>program_var := Some p\<rparr>) op [x] p g mx token None") simp_all
qed

lemma bundled_option_step:
  assumes "\<not> force_positional s" and "\<not> pending_oparg op"
    and "x \<noteq> CHR ''-''" and "CHR ''='' \<notin> set (x # y # r)"
    and "\<And>p g mn mx token. getitem s [x] = Inr (p, g, mn, mx, token) \<Longrightarrow> mx = Num 0"
  shows "phase2 s op ((CHR ''-'' # x # y # r) # rest)
           = phase2 s op ([CHR ''-'', x] # (CHR ''-'' # y # r) # rest)"
proof (cases "option_space_oparg s")
  case False
  with assms(1-3) show ?thesis
    by (simp add: is_positional_argument_def startswith_def)
next
  case True
  have pf: "partition_eq (CHR ''-'' # x # y # r) = (CHR ''-'' # x # y # r, False, [])"
    using partition_eq_none [of "CHR ''-'' # x # y # r"] assms(4) by simp
  have ps: "partition_eq [CHR ''-'', x] = ([CHR ''-'', x], False, [])"
    using assms(4) by auto
  show ?thesis
  proof (cases "getitem s [x]")
    case (Inl e)
    with assms(1-3) True pf ps show ?thesis
      by (simp add: is_positional_argument_def startswith_def invoke_option_def split_token_def)
  next
    case (Inr q)
    obtain p g mn mx token where q: "q = (p, g, mn, mx, token)" by (cases q)
    with Inr assms(5) have mx: "mx = Num 0" by simp
    have sw: "s\<lparr>argi := (CHR ''-'' # y # r) # rest, program_var := Some p\<rparr>
                = s\<lparr>program_var := Some p, argi := (CHR ''-'' # y # r) # rest\<rparr>"
      by (cases s) simp
    have l: "phase2 s op ((CHR ''-'' # x # y # r) # rest)
               = (case enter_option
                         (s\<lparr>program_var := Some p, argi := (CHR ''-'' # y # r) # rest\<rparr>)
                         op [x] p g mx token None of
                    Inl e \<Rightarrow> Inl e | Inr s' \<Rightarrow> Inr (Running s'))"
      using assms(1-3) True pf Inr q mx
      by (simp add: is_positional_argument_def startswith_def invoke_option_def split_token_def
          handle_remainder_def)
    have r: "phase2 s op ([CHR ''-'', x] # (CHR ''-'' # y # r) # rest)
               = (case enter_option
                         (s\<lparr>argi := (CHR ''-'' # y # r) # rest, program_var := Some p\<rparr>)
                         op [x] p g mx token None of
                    Inl e \<Rightarrow> Inl e | Inr s' \<Rightarrow> Inr (Running s'))"
      using assms(1-3) True ps Inr q mx
      by (simp add: is_positional_argument_def startswith_def invoke_option_def split_token_def
          handle_remainder_def)
    show ?thesis
      by (simp only: l r sw)
  qed
qed

lemma run_bundle_first:
  assumes inv: "no_value_state xs s" and x: "x \<in> set xs" "x \<noteq> CHR ''-''"
    and eq: "CHR ''='' \<notin> set (x # y # r)"
  shows "run n (s\<lparr>argi := (CHR ''-'' # x # y # r) # rest\<rparr>)
       = run n (s\<lparr>argi := [CHR ''-'', x] # (CHR ''-'' # y # r) # rest\<rparr>)"
proof (cases n)
  case 0
  then show ?thesis by simp
next
  case (Suc m)
  let ?A = "(CHR ''-'' # x # y # r) # rest"
  let ?B = "[CHR ''-'', x] # (CHR ''-'' # y # r) # rest"
  let ?sA = "s\<lparr>argi := ?A\<rparr>"
  let ?k = "\<lambda>res. case res of Inl e \<Rightarrow> Some (Inl e)
                      | Inr (Returned r s2) \<Rightarrow> Some (Inr (r, s2))
                      | Inr (Running s2) \<Rightarrow> run m s2"
  have pB: "phase1 m (s\<lparr>argi := ?B\<rparr>)
              = map_option (map_sum id (\<lambda>(s', op). (s'\<lparr>argi := ?B\<rparr>, op))) (phase1 m ?sA)"
    using phase1_argi [of ?sA ?B m] by simp
  show ?thesis
  proof (cases "phase1 m ?sA")
    case None
    with pB Suc show ?thesis by simp
  next
    case (Some res)
    show ?thesis
    proof (cases res)
      case (Inl e)
      with Some pB Suc show ?thesis by simp
    next
      case (Inr q)
      obtain s1 op where q: "q = (s1, op)" by (cases q)
      have p1: "phase1 m ?sA = Some (Inr (s1, op))"
        using Some Inr q by simp
      have a1: "argi s1 = ?A"
        using phase1_keeps_argi [OF p1] by simp
      have i1: "no_value_state xs s1" "\<not> pending_oparg op"
        using phase1_no_value [OF _ p1] inv by simp_all
      have fp: "\<not> force_positional s1"
        using i1(1) by (simp add: no_value_state_def)
      have g: "\<And>p g mn mx token. getitem s1 [x] = Inr (p, g, mn, mx, token) \<Longrightarrow> mx = Num 0"
        using getitem_no_value [OF i1(1) x(1)] by simp
      have st: "phase2 s1 op ?A = phase2 s1 op ?B"
        by (rule bundled_option_step [OF fp i1(2) x(2) eq g])
      have rA: "run (Suc m) ?sA = ?k (phase2 s1 op ?A)"
        using p1 a1 by (simp del: phase2.simps)
      have rB: "run (Suc m) (s\<lparr>argi := ?B\<rparr>) = ?k (phase2 s1 op ?B)"
        using pB p1 by (simp add: phase2_argi del: phase2.simps)
      from rA rB st Suc show ?thesis by simp
    qed
  qed
qed

lemma run_bundle_rest:
  assumes inv: "no_value_state xs s"
    and x: "x \<in> set xs" "x \<noteq> CHR ''-''" "x \<noteq> CHR ''=''"
    and ih: "\<And>s'. no_value_state xs s' \<Longrightarrow> run m (s'\<lparr>argi := t1\<rparr>) = run m (s'\<lparr>argi := t2\<rparr>)"
  shows "run (Suc m) (s\<lparr>argi := [CHR ''-'', x] # t1\<rparr>)
       = run (Suc m) (s\<lparr>argi := [CHR ''-'', x] # t2\<rparr>)"
proof -
  let ?B = "[CHR ''-'', x] # t1"
  let ?C = "[CHR ''-'', x] # t2"
  let ?sB = "s\<lparr>argi := ?B\<rparr>"
  let ?k = "\<lambda>res. case res of Inl e \<Rightarrow> Some (Inl e)
                      | Inr (Returned r s2) \<Rightarrow> Some (Inr (r, s2))
                      | Inr (Running s2) \<Rightarrow> run m s2"
  have pC: "phase1 m (s\<lparr>argi := ?C\<rparr>)
              = map_option (map_sum id (\<lambda>(s', op). (s'\<lparr>argi := ?C\<rparr>, op))) (phase1 m ?sB)"
    using phase1_argi [of ?sB ?C m] by simp
  show ?thesis
  proof (cases "phase1 m ?sB")
    case None
    with pC show ?thesis by simp
  next
    case (Some res)
    show ?thesis
    proof (cases res)
      case (Inl e)
      with Some pC show ?thesis by simp
    next
      case (Inr q)
      obtain s1 op where q: "q = (s1, op)" by (cases q)
      have p1: "phase1 m ?sB = Some (Inr (s1, op))"
        using Some Inr q by simp
      have a1: "argi s1 = ?B"
        using phase1_keeps_argi [OF p1] by simp
      have i1: "no_value_state xs s1" "\<not> pending_oparg op"
        using phase1_no_value [OF _ p1] inv by simp_all
      have fp: "\<not> force_positional s1"
        using i1(1) by (simp add: no_value_state_def)
      have rB: "run (Suc m) ?sB = ?k (phase2 s1 op ?B)"
        using p1 a1 by (simp del: phase2.simps)
      have rC: "run (Suc m) (s\<lparr>argi := ?C\<rparr>) = ?k (phase2 s1 op ?C)"
        using pC p1 by (simp add: phase2_argi del: phase2.simps)
      have "?k (phase2 s1 op ?B) = ?k (phase2 s1 op ?C)"
      proof (cases "option_space_oparg s1")
        case False
        with fp i1(2) x(2) show ?thesis
          by (simp add: is_positional_argument_def startswith_def)
      next
        case True
        note st = short_option_step [OF fp i1(2) True x(2) x(3)]
        show ?thesis
        proof (cases "getitem s1 [x]")
          case (Inl e)
          then show ?thesis by (simp add: st del: phase2.simps)
        next
          case (Inr w)
          obtain p g mn mx token where w: "w = (p, g, mn, mx, token)" by (cases w)
          have gp: "no_value_program xs p"
            using getitem_no_value [OF i1(1) x(1)] Inr w by simp
          show ?thesis
          proof (cases "enter_option (s1\<lparr>program_var := Some p\<rparr>) op [x] p g mx token None")
            case (Inl e)
            with \<open>getitem s1 [x] = Inr w\<close> w show ?thesis by (simp add: st del: phase2.simps)
          next
            case en: (Inr s')
            have "no_value_state xs (s1\<lparr>program_var := Some p\<rparr>)"
              using i1(1) by simp
            from enter_option_no_value [OF this gp en] have "no_value_state xs s'" .
            from ih [OF this] \<open>getitem s1 [x] = Inr w\<close> w en show ?thesis
              by (simp add: st del: phase2.simps)
          qed
        qed
      qed
      with rB rC show ?thesis by simp
    qed
  qed
qed

lemma bundle_run:
  assumes "CHR ''-'' \<notin> set xs" and "CHR ''='' \<notin> set xs"
  shows "set (c # cs) \<subseteq> set xs \<Longrightarrow> no_value_state xs s \<Longrightarrow>
     run n (s\<lparr>argi := (CHR ''-'' # c # cs) # rest\<rparr>)
       = run n (s\<lparr>argi := map (\<lambda>x. [CHR ''-'', x]) (c # cs) @ rest\<rparr>)"
proof (induction cs arbitrary: c s n)
  case Nil
  show ?case by simp
next
  case (Cons d ds)
  have c: "c \<in> set xs" "c \<noteq> CHR ''-''" "c \<noteq> CHR ''=''"
    using Cons.prems(1) assms by auto
  have eq: "CHR ''='' \<notin> set (c # d # ds)"
    using Cons.prems(1) assms(2) by auto
  have first: "run n (s\<lparr>argi := (CHR ''-'' # c # d # ds) # rest\<rparr>)
                 = run n (s\<lparr>argi := [CHR ''-'', c] # (CHR ''-'' # d # ds) # rest\<rparr>)"
    by (rule run_bundle_first [OF Cons.prems(2) c(1) c(2) eq])
  have rest: "run n (s\<lparr>argi := [CHR ''-'', c] # (CHR ''-'' # d # ds) # rest\<rparr>)
                = run n (s\<lparr>argi := [CHR ''-'', c] # (map (\<lambda>x. [CHR ''-'', x]) (d # ds) @ rest)\<rparr>)"
  proof (cases n)
    case 0
    then show ?thesis by simp
  next
    case (Suc m)
    have "set (d # ds) \<subseteq> set xs"
      using Cons.prems(1) by simp
    from Cons.IH [OF this]
    have ih: "\<And>s'. no_value_state xs s' \<Longrightarrow>
                run m (s'\<lparr>argi := (CHR ''-'' # d # ds) # rest\<rparr>)
                  = run m (s'\<lparr>argi := map (\<lambda>x. [CHR ''-'', x]) (d # ds) @ rest\<rparr>)" .
    show ?thesis
      unfolding Suc by (rule run_bundle_rest [OF Cons.prems(2) c ih])
  qed
  from first rest show ?case by simp
qed

text \<open>
  Claim C4. Let \<open>a\<close>, \<open>b\<close> and \<open>c\<close> be option letters that take no value in the program
  (every \<^verbatim>\<open>map_option\<close> for one of them maps it to a program of total maximum 0, and the
  programs involved never wait for an oparg). Then the interpreter, started on the one
  string \<^verbatim>\<open>-abc\<close>, and the interpreter started on the three strings \<^verbatim>\<open>-a -b -c\<close>, end in
  the same way: with the same bound on the number of steps, both return the same
  converter in the same final state (so the same tree of converters), or both raise the
  same exception, or both are still running.
\<close>

theorem bundled_short_options:
  assumes "no_value_program [a, b, c] P"
    and "CHR ''-'' \<notin> set [a, b, c]" and "CHR ''='' \<notin> set [a, b, c]"
  shows "run n (init_state P [[CHR ''-'', a, b, c]] False so eo co)
       = run n (init_state P [[CHR ''-'', a], [CHR ''-'', b], [CHR ''-'', c]] False so eo co)"
proof -
  let ?s = "init_state P [] False so eo co"
  have i: "no_value_state [a, b, c] ?s"
    using assms(1)
    by (simp add: no_value_state_def no_value_ip_def init_state_def)
  have "set (a # [b, c]) \<subseteq> set [a, b, c]" by simp
  from bundle_run [OF assms(2,3) this i, of n "[]"] show ?thesis
    by (simp add: init_state_def)
qed

lemma run_flags_bundle:
  "result_of (run 30 (init_state prog_flags [''-abc''] False True True True))
     = Some (Inr (0, [(new_converter ConverterCls ''flags'' True)
                        \<lparr>kwargs_converters :=
                           Some [(''a'', Some (Conv 1)), (''b'', Some (Conv 2)),
                                 (''c'', Some (Conv 3))]\<rparr>,
                      new_converter OptionCls ''a'' True,
                      new_converter OptionCls ''b'' True,
                      new_converter OptionCls ''c'' True], [], False))"
  by code_simp

theorem bundled_short_options_witness:
  "no_value_program ''abc'' prog_flags
   \<and> CHR ''-'' \<notin> set ''abc'' \<and> CHR ''='' \<notin> set ''abc''
   \<and> run 30 (init_state prog_flags [''-abc''] False True True True)
       = run 30 (init_state prog_flags [''-a'', ''-b'', ''-c''] False True True True)
   \<and> result_of (run 30 (init_state prog_flags [''-a'', ''-b'', ''-c''] False True True True))
       = Some (Inr (0, [(new_converter ConverterCls ''flags'' True)
                        \<lparr>kwargs_converters :=
                           Some [(''a'', Some (Conv 1)), (''b'', Some (Conv 2)),
                                 (''c'', Some (Conv 3))]\<rparr>,
                      new_converter OptionCls ''a'' True,
                      new_converter OptionCls ''b'' True,
                      new_converter OptionCls ''c'' True], [], False))"
proof -
  have h1: "no_value_program ''abc'' prog_flags"
    by code_simp
  have h2: "CHR ''-'' \<notin> set ''abc''" by simp
  have h3: "CHR ''='' \<notin> set ''abc''" by simp
  note t = bundled_short_options [OF h1 h2 h3, of 30 True True True]
  from t run_flags_bundle
  have c: "result_of (run 30 (init_state prog_flags [''-a'', ''-b'', ''-c''] False True True True))
       = Some (Inr (0, [(new_converter ConverterCls ''flags'' True)
                        \<lparr>kwargs_converters :=
                           Some [(''a'', Some (Conv 1)), (''b'', Some (Conv 2)),
                                 (''c'', Some (Conv 3))]\<rparr>,
                      new_converter OptionCls ''a'' True,
                      new_converter OptionCls ''b'' True,
                      new_converter OptionCls ''c'' True], [], False))"
    by simp
  from h1 h2 h3 t c show ?thesis by simp
qed

end
